theory Spec2Isabelle
  imports Main "HOL-Library.Word" "HOL-Library.AList"
begin

unbundle bit_operations_syntax

chapter \<open>MCP MySQL server: authorization, result cache, connection lifecycle\<close>

text \<open>
  A shallow embedding of \<^verbatim>\<open>src/auth.ts\<close>, \<^verbatim>\<open>src/cache.ts\<close>, \<^verbatim>\<open>src/mysql-client.ts\<close>
  and the request handlers of \<^verbatim>\<open>src/index.ts\<close>. Strings are lists of 8-bit code units,
  \<^verbatim>\<open>Date.now()\<close> is an explicit argument in milliseconds, the random draw of a session
  id is an explicit argument, and the data store is an explicit world value that records
  which connections are open and which driver calls were made. Every handler runs from
  start to end without another handler or the expiry timer in between.
\<close>

section \<open>JavaScript string primitives\<close>

text \<open>
  \<^verbatim>\<open>String.prototype.trim\<close> strips the ECMAScript white space and line terminators
  from both ends; within 8-bit code units these are TAB, LF, VT, FF, CR, SPACE and NBSP.
\<close>

definition isWhiteSpace :: "char \<Rightarrow> bool" where
  "isWhiteSpace c = (of_char c \<in> {9, 10, 11, 12, 13, 32, 160 :: nat})"

definition trimStart :: "string \<Rightarrow> string" where
  "trimStart s = dropWhile isWhiteSpace s"

definition trimEnd :: "string \<Rightarrow> string" where
  "trimEnd s = rev (dropWhile isWhiteSpace (rev s))"

definition trim :: "string \<Rightarrow> string" where
  "trim s = trimEnd (trimStart s)"

text \<open>
  \<^verbatim>\<open>toLowerCase\<close> on 8-bit code units: A-Z and the Latin-1 capitals U+00C0-U+00DE
  (except the multiplication sign U+00D7) move up by 32, everything else is unchanged.
  In those ranges the bit of value 32 is clear, so adding 32 is setting that bit.
\<close>

definition lowerChar :: "char \<Rightarrow> char" where
  "lowerChar c =
     (let n = (of_char c :: nat)
      in if (65 \<le> n \<and> n \<le> 90) \<or> (192 \<le> n \<and> n \<le> 222 \<and> n \<noteq> 215)
         then (case c of Char b0 b1 b2 b3 b4 b5 b6 b7 \<Rightarrow> Char b0 b1 b2 b3 b4 True b6 b7)
         else c)"

definition toLowerCase :: "string \<Rightarrow> string" where
  "toLowerCase s = map lowerChar s"

definition startsWith :: "string \<Rightarrow> string \<Rightarrow> bool" where
  "startsWith s p = (take (length p) s = p)"

text \<open>\<open>str_includes s p\<close> is \<^verbatim>\<open>s.includes(p)\<close>: \<open>p\<close> occurs in \<open>s\<close> as a substring.\<close>

fun str_includes :: "string \<Rightarrow> string \<Rightarrow> bool" where
  "str_includes [] p = (p = [])"
| "str_includes (c # cs) p = (startsWith (c # cs) p \<or> str_includes cs p)"

section \<open>auth.ts\<close>

datatype UserRole = ADMIN | READ_WRITE | READ_ONLY

datatype Permission = SELECT | INSERT | UPDATE | DELETE | SHOW | DESCRIBE

record User =
  username :: string
  password :: string
  role :: UserRole

text \<open>The two maps of \<^verbatim>\<open>AuthManager\<close>: users by name, and sessionId -> username.\<close>

record AuthManager =
  users :: "string \<rightharpoonup> User"
  sessions :: "string \<rightharpoonup> string"

definition hasPermission :: "User \<Rightarrow> Permission \<Rightarrow> bool" where
  "hasPermission user permission =
     (case role user of
        ADMIN \<Rightarrow> True
      | READ_WRITE \<Rightarrow> permission \<in> set [SELECT, INSERT, UPDATE, SHOW, DESCRIBE]
      | READ_ONLY \<Rightarrow> permission \<in> set [SELECT, SHOW, DESCRIBE])"

definition parseQueryPermission :: "string \<Rightarrow> Permission" where
  "parseQueryPermission sql =
     (let trimmedSql = toLowerCase (trim sql)
      in if startsWith trimmedSql ''select'' then SELECT
         else if startsWith trimmedSql ''insert'' then INSERT
         else if startsWith trimmedSql ''update'' then UPDATE
         else if startsWith trimmedSql ''delete'' then DELETE
         else if startsWith trimmedSql ''show'' then SHOW
         else if startsWith trimmedSql ''describe'' \<or> startsWith trimmedSql ''desc'' then DESCRIBE
         else SELECT)"

definition getPermissionForOperation :: "string \<Rightarrow> Permission" where
  "getPermissionForOperation operation =
     (let op = toLowerCase operation
      in if op = ''mysql_query'' then SELECT
         else if op = ''mysql_list_databases'' \<or> op = ''mysql_list_tables'' then SHOW
         else if op = ''mysql_describe_table'' then DESCRIBE
         else if op = ''mysql_get_table_data'' then SELECT
         else if op = ''mysql_insert'' then INSERT
         else if op = ''mysql_update'' then UPDATE
         else if op = ''mysql_delete'' then DELETE
         else SELECT)"

text \<open>
  \<^verbatim>\<open>process.env.X || 'default'\<close>: an unset or empty variable gives the default.
\<close>

definition envOr :: "(string \<rightharpoonup> string) \<Rightarrow> string \<Rightarrow> string \<Rightarrow> string" where
  "envOr env name dflt = (case env name of None \<Rightarrow> dflt | Some v \<Rightarrow> if v = [] then dflt else v)"

definition initializeDefaultUsers :: "(string \<rightharpoonup> string) \<Rightarrow> (string \<rightharpoonup> User)" where
  "initializeDefaultUsers env =
     (let adminUser = \<lparr>username = envOr env ''MYSQL_ADMIN_USER'' ''admin'',
                       password = envOr env ''MYSQL_ADMIN_PASSWORD'' ''admin123'', role = ADMIN\<rparr>;
          readWriteUser = \<lparr>username = envOr env ''MYSQL_RW_USER'' ''readwrite'',
                           password = envOr env ''MYSQL_RW_PASSWORD'' ''rw123'', role = READ_WRITE\<rparr>;
          readOnlyUser = \<lparr>username = envOr env ''MYSQL_RO_USER'' ''readonly'',
                          password = envOr env ''MYSQL_RO_PASSWORD'' ''ro123'', role = READ_ONLY\<rparr>
      in (((Map.empty(username adminUser \<mapsto> adminUser))
             (username readWriteUser \<mapsto> readWriteUser))
             (username readOnlyUser \<mapsto> readOnlyUser)))"

definition newAuthManager :: "(string \<rightharpoonup> string) \<Rightarrow> AuthManager" where
  "newAuthManager env = \<lparr>users = initializeDefaultUsers env, sessions = Map.empty\<rparr>"

text \<open>
  \<^verbatim>\<open>authenticate\<close>. The session id is \<^verbatim>\<open>Math.random().toString(36).substring(7)\<close>;
  the string that this expression yields is the argument \<open>sessionId\<close>. Nothing else
  enters the choice of the id: the session map is not consulted.
\<close>

definition authenticate :: "AuthManager \<Rightarrow> string \<Rightarrow> string \<Rightarrow> string \<Rightarrow> string option \<times> AuthManager" where
  "authenticate am uname pw sessionId =
     (case users am uname of
        None \<Rightarrow> (None, am)
      | Some user \<Rightarrow>
          if password user \<noteq> pw then (None, am)
          else (Some sessionId, am\<lparr>sessions := (sessions am)(sessionId \<mapsto> uname)\<rparr>))"

text \<open>\<^verbatim>\<open>if (!username) return null\<close> also rejects a stored empty user name.\<close>

definition getUserFromSession :: "AuthManager \<Rightarrow> string \<Rightarrow> User option" where
  "getUserFromSession am sessionId =
     (case sessions am sessionId of
        None \<Rightarrow> None
      | Some uname \<Rightarrow> if uname = [] then None else users am uname)"

definition logout :: "AuthManager \<Rightarrow> string \<Rightarrow> AuthManager" where
  "logout am sessionId = am\<lparr>sessions := (sessions am)(sessionId := None)\<rparr>"

section \<open>JSON values and \<^verbatim>\<open>JSON.stringify\<close>\<close>

text \<open>
  Query parameters, rows and column values are JSON values. A number is an integer here
  and is printed in decimal. The numbers of the code are doubles: the model stands for
  the code on the safe integers (see \<open>safe\<close> below), not on fractions or beyond
  \<open>2\<^sup>5\<^sup>3\<close>, and what is proved about the text of numbers is stated for safe values.
  A string is a list of 8-bit characters, an object the list of its properties in the
  order \<^verbatim>\<open>JSON.stringify\<close> prints them. What JSON cannot carry (\<^verbatim>\<open>undefined\<close>,
  \<^verbatim>\<open>NaN\<close>, functions) is not a value here: the parameters of a tool call arrive as JSON.
\<close>

datatype json = JNull | JBool bool | JNum int | JStr string | JArr "json list"
  | JObj "(string \<times> json) list"

definition truthy :: "json \<Rightarrow> bool" where
  "truthy j = (case j of JNull \<Rightarrow> False | JBool b \<Rightarrow> b | JNum n \<Rightarrow> n \<noteq> 0
                 | JStr s \<Rightarrow> s \<noteq> [] | JArr _ \<Rightarrow> True | JObj _ \<Rightarrow> True)"

definition isArray :: "json \<Rightarrow> bool" where
  "isArray j = (case j of JArr _ \<Rightarrow> True | _ \<Rightarrow> False)"

fun join :: "string \<Rightarrow> string list \<Rightarrow> string" where
  "join sep [] = []"
| "join sep [x] = x"
| "join sep (x # y # ys) = x @ sep @ join sep (y # ys)"

function decimal :: "nat \<Rightarrow> string" where
  "decimal n = (if n < 10 then [''0123456789'' ! n]
                else decimal (n div 10) @ [''0123456789'' ! (n mod 10)])"
  by pat_completeness auto
termination
  by (relation "measure id") auto

definition showInt :: "int \<Rightarrow> string" where
  "showInt i = (if i < 0 then ''-'' @ decimal (nat (- i)) else decimal (nat i))"

definition hexChar :: "nat \<Rightarrow> char" where
  "hexChar n = ''0123456789abcdef'' ! (n mod 16)"

text \<open>
  The escapes of \<^verbatim>\<open>JSON.stringify\<close>: the double quote (34) and the backslash (92)
  get a backslash, the control characters their short form or \<^verbatim>\<open>\u00xx\<close>.
\<close>

definition quoteChar :: "char \<Rightarrow> string" where
  "quoteChar c =
     (let n = (of_char c :: nat)
      in if n = 34 then [CHR 0x5C, CHR 0x22]
         else if n = 92 then [CHR 0x5C, CHR 0x5C]
         else if n = 8 then [CHR 0x5C, CHR ''b'']
         else if n = 9 then [CHR 0x5C, CHR ''t'']
         else if n = 10 then [CHR 0x5C, CHR ''n'']
         else if n = 12 then [CHR 0x5C, CHR ''f'']
         else if n = 13 then [CHR 0x5C, CHR ''r'']
         else if n < 32
         then [CHR 0x5C, CHR ''u'', CHR ''0'', CHR ''0'', hexChar (n div 16), hexChar n]
         else [c])"

definition quote :: "string \<Rightarrow> string" where
  "quote s = CHR 0x22 # concat (map quoteChar s) @ [CHR 0x22]"

fun JSON_stringify :: "json \<Rightarrow> string" where
  "JSON_stringify JNull = ''null''"
| "JSON_stringify (JBool b) = (if b then ''true'' else ''false'')"
| "JSON_stringify (JNum n) = showInt n"
| "JSON_stringify (JStr s) = quote s"
| "JSON_stringify (JArr xs) = ''['' @ join '','' (map JSON_stringify xs) @ '']''"
| "JSON_stringify (JObj kvs) =
     ''{'' @ join '','' (map (\<lambda>kv. quote (fst kv) @ '':'' @ JSON_stringify (snd kv)) kvs) @ ''}''"

text \<open>
  \<^verbatim>\<open>Number.isSafeInteger\<close>: the integers that a double holds exactly and that
  \<^verbatim>\<open>JSON.stringify\<close> prints in plain decimal. \<open>safe j\<close> says that every number in \<open>j\<close> is
  one of them; on such values the model and the code print the same text.
\<close>

definition safeInteger :: "int \<Rightarrow> bool" where
  "safeInteger n = (- 9007199254740991 \<le> n \<and> n \<le> 9007199254740991)"

fun safe :: "json \<Rightarrow> bool" where
  "safe JNull = True"
| "safe (JBool b) = True"
| "safe (JNum n) = safeInteger n"
| "safe (JStr s) = True"
| "safe (JArr xs) = list_all safe xs"
| "safe (JObj kvs) = list_all (\<lambda>kv. safe (snd kv)) kvs"

text \<open>The optional parameter list of a query is safe when each parameter is.\<close>

definition safeParams :: "json list option \<Rightarrow> bool" where
  "safeParams params = (case params of None \<Rightarrow> True | Some ps \<Rightarrow> list_all safe ps)"

section \<open>MD5 (RFC 1321), as \<^verbatim>\<open>crypto.createHash('md5').update(data).digest('hex')\<close>\<close>

type_synonym u32 = "32 word"

definition md5_K :: "u32 list" where
  "md5_K = [0xd76aa478, 0xe8c7b756, 0x242070db, 0xc1bdceee, 0xf57c0faf, 0x4787c62a, 0xa8304613, 0xfd469501, 0x698098d8, 0x8b44f7af, 0xffff5bb1, 0x895cd7be, 0x6b901122, 0xfd987193, 0xa679438e, 0x49b40821, 0xf61e2562, 0xc040b340, 0x265e5a51, 0xe9b6c7aa, 0xd62f105d, 0x02441453, 0xd8a1e681, 0xe7d3fbc8, 0x21e1cde6, 0xc33707d6, 0xf4d50d87, 0x455a14ed, 0xa9e3e905, 0xfcefa3f8, 0x676f02d9, 0x8d2a4c8a, 0xfffa3942, 0x8771f681, 0x6d9d6122, 0xfde5380c, 0xa4beea44, 0x4bdecfa9, 0xf6bb4b60, 0xbebfbc70, 0x289b7ec6, 0xeaa127fa, 0xd4ef3085, 0x04881d05, 0xd9d4d039, 0xe6db99e5, 0x1fa27cf8, 0xc4ac5665, 0xf4292244, 0x432aff97, 0xab9423a7, 0xfc93a039, 0x655b59c3, 0x8f0ccc92, 0xffeff47d, 0x85845dd1, 0x6fa87e4f, 0xfe2ce6e0, 0xa3014314, 0x4e0811a1, 0xf7537e82, 0xbd3af235, 0x2ad7d2bb, 0xeb86d391]"

definition md5_S :: "nat list" where
  "md5_S = [7, 12, 17, 22, 7, 12, 17, 22, 7, 12, 17, 22, 7, 12, 17, 22,
            5, 9, 14, 20, 5, 9, 14, 20, 5, 9, 14, 20, 5, 9, 14, 20,
            4, 11, 16, 23, 4, 11, 16, 23, 4, 11, 16, 23, 4, 11, 16, 23,
            6, 10, 15, 21, 6, 10, 15, 21, 6, 10, 15, 21, 6, 10, 15, 21]"

definition rotl32 :: "nat \<Rightarrow> u32 \<Rightarrow> u32" where
  "rotl32 n x = push_bit n x OR drop_bit (32 - n) x"

definition md5_step :: "u32 list \<Rightarrow> u32 \<times> u32 \<times> u32 \<times> u32 \<Rightarrow> nat \<Rightarrow> u32 \<times> u32 \<times> u32 \<times> u32" where
  "md5_step M st i =
     (case st of (A, B, C, D) \<Rightarrow>
        let (F, g) =
              (if i < 16 then ((B AND C) OR (NOT B AND D), i)
               else if i < 32 then ((D AND B) OR (NOT D AND C), (5 * i + 1) mod 16)
               else if i < 48 then (B XOR C XOR D, (3 * i + 5) mod 16)
               else (C XOR (B OR NOT D), (7 * i) mod 16));
            F' = F + A + md5_K ! i + M ! g
        in (D, B + rotl32 (md5_S ! i) F', B, C))"

fun le_word :: "8 word list \<Rightarrow> u32" where
  "le_word [] = 0"
| "le_word (b # bs) = ucast b OR push_bit 8 (le_word bs)"

definition bytes_of_u32 :: "u32 \<Rightarrow> 8 word list" where
  "bytes_of_u32 w = map (\<lambda>k. ucast (drop_bit (8 * k) w)) [0, 1, 2, 3]"

definition bytes_of_u64 :: "64 word \<Rightarrow> 8 word list" where
  "bytes_of_u64 w = map (\<lambda>k. ucast (drop_bit (8 * k) w)) [0, 1, 2, 3, 4, 5, 6, 7]"

function words_of :: "8 word list \<Rightarrow> u32 list" where
  "words_of bs = (if bs = [] then [] else le_word (take 4 bs) # words_of (drop 4 bs))"
  by pat_completeness auto
termination
  by (relation "measure length") auto

definition md5_block :: "u32 \<times> u32 \<times> u32 \<times> u32 \<Rightarrow> 8 word list \<Rightarrow> u32 \<times> u32 \<times> u32 \<times> u32" where
  "md5_block st blk =
     (case st of (a0, b0, c0, d0) \<Rightarrow>
        case foldl (md5_step (words_of blk)) st [0..<64] of (A, B, C, D) \<Rightarrow>
          (a0 + A, b0 + B, c0 + C, d0 + D))"

function md5_blocks :: "u32 \<times> u32 \<times> u32 \<times> u32 \<Rightarrow> 8 word list \<Rightarrow> u32 \<times> u32 \<times> u32 \<times> u32" where
  "md5_blocks st bs = (if bs = [] then st else md5_blocks (md5_block st (take 64 bs)) (drop 64 bs))"
  by pat_completeness auto
termination
  by (relation "measure (\<lambda>(st, bs). length bs)") auto

definition md5_pad :: "8 word list \<Rightarrow> 8 word list" where
  "md5_pad bs = bs @ [0x80] @ replicate ((119 - length bs mod 64) mod 64) 0
                  @ bytes_of_u64 (8 * of_nat (length bs))"

definition md5 :: "8 word list \<Rightarrow> 8 word list" where
  "md5 bs = (case md5_blocks (0x67452301, 0xefcdab89, 0x98badcfe, 0x10325476) (md5_pad bs) of
               (a, b, c, d) \<Rightarrow> concat (map bytes_of_u32 [a, b, c, d]))"

definition hex_digit :: "8 word \<Rightarrow> char" where
  "hex_digit n = ''0123456789abcdef'' ! unat (n AND 15)"

definition hex :: "8 word list \<Rightarrow> string" where
  "hex bs = concat (map (\<lambda>b. [hex_digit (drop_bit 4 b), hex_digit b]) bs)"

definition utf8 :: "string \<Rightarrow> 8 word list" where
  "utf8 s = concat (map (\<lambda>c. let n = (of_char c :: 8 word)
                              in if n < 128 then [n] else [192 OR drop_bit 6 n, 128 OR (n AND 63)]) s)"

definition md5_hex :: "string \<Rightarrow> string" where
  "md5_hex s = hex (md5 (utf8 s))"


text \<open>
  The recursive equations of the loops are unfolded by hand or by evaluation, not by
  the simplifier.
\<close>

declare words_of.simps [simp del] md5_blocks.simps [simp del] decimal.simps [simp del]

section \<open>cache.ts\<close>

record 'v CacheEntry =
  data :: 'v
  timestamp :: int
  ttl :: int

text \<open>
  The \<^verbatim>\<open>Map\<close> of the cache is kept as an association list in insertion order, which is
  the order a JavaScript \<^verbatim>\<open>Map\<close> iterates in: \<open>AList.update\<close> overwrites a present key
  in place and appends a new one, \<open>AList.delete\<close> removes a key.
\<close>

record 'v QueryCache =
  cache :: "(string \<times> 'v CacheEntry) list"
  maxSize :: int
  defaultTTL :: int

definition newQueryCache :: "int \<Rightarrow> int \<Rightarrow> 'v QueryCache" where
  "newQueryCache maxSize0 defaultTTL0 = \<lparr>cache = [], maxSize = maxSize0, defaultTTL = defaultTTL0\<rparr>"

text \<open>
  \<open>keyData\<close> is the constant \<^verbatim>\<open>data\<close> of \<^verbatim>\<open>generateKey\<close>: the query text followed by
  the JSON text of the parameters, or by nothing when there are none.
\<close>

definition keyData :: "string \<Rightarrow> json list option \<Rightarrow> string" where
  "keyData sql params =
     sql @ (case params of None \<Rightarrow> [] | Some ps \<Rightarrow> JSON_stringify (JArr ps))"

definition generateKey :: "string \<Rightarrow> json list option \<Rightarrow> string" where
  "generateKey sql params = md5_hex (keyData sql params)"

definition isExpired :: "int \<Rightarrow> 'v CacheEntry \<Rightarrow> bool" where
  "isExpired now entry = (now - timestamp entry > ttl entry)"

definition cleanExpired :: "int \<Rightarrow> 'v QueryCache \<Rightarrow> 'v QueryCache" where
  "cleanExpired now c = c\<lparr>cache := filter (\<lambda>(key, entry). \<not> isExpired now entry) (cache c)\<rparr>"

definition oldestStep :: "string \<times> int \<Rightarrow> string \<times> 'v CacheEntry \<Rightarrow> string \<times> int" where
  "oldestStep acc ke =
     (case acc of (oldestKey, oldestTime) \<Rightarrow>
        case ke of (key, entry) \<Rightarrow>
          if timestamp entry < oldestTime then (key, timestamp entry) else (oldestKey, oldestTime))"

definition evictOldest :: "int \<Rightarrow> 'v QueryCache \<Rightarrow> 'v QueryCache" where
  "evictOldest now c =
     (if length (cache c) = 0 then c
      else case foldl oldestStep ([], now) (cache c) of
             (oldestKey, oldestTime) \<Rightarrow>
               if oldestKey \<noteq> [] then c\<lparr>cache := AList.delete oldestKey (cache c)\<rparr> else c)"

text \<open>
  \<^verbatim>\<open>get\<close> returns the stored data or \<^verbatim>\<open>null\<close>; here \<open>None\<close> is the \<^verbatim>\<open>null\<close> of a miss
  and \<open>Some d\<close> the data of a hit. It also returns the cache, which loses an expired entry.
\<close>

definition get :: "int \<Rightarrow> 'v QueryCache \<Rightarrow> string \<Rightarrow> json list option \<Rightarrow> 'v option \<times> 'v QueryCache" where
  "get now c sql params =
     (let key = generateKey sql params
      in case map_of (cache c) key of
           None \<Rightarrow> (None, c)
         | Some entry \<Rightarrow>
             if isExpired now entry then (None, c\<lparr>cache := AList.delete key (cache c)\<rparr>)
             else (Some (data entry), c))"

text \<open>
  \<open>set_entry\<close> is the method \<^verbatim>\<open>set\<close>. With \<^verbatim>\<open>ttl || this.defaultTTL\<close> an absent ttl and
  the ttl 0 both give the default. The clock is read once for the eviction and once for
  the timestamp of the entry; both readings are \<open>now\<close>.
\<close>

definition set_entry :: "int \<Rightarrow> 'v QueryCache \<Rightarrow> string \<Rightarrow> 'v \<Rightarrow> json list option \<Rightarrow> int option \<Rightarrow> 'v QueryCache" where
  "set_entry now c sql d params ttl_arg =
     (let key = generateKey sql params;
          c1 = (if int (length (cache c)) \<ge> maxSize c \<and> map_of (cache c) key = None
                then evictOldest now c else c);
          entry = \<lparr>data = d, timestamp = now,
                   ttl = (case ttl_arg of None \<Rightarrow> defaultTTL c
                          | Some t \<Rightarrow> if t = 0 then defaultTTL c else t)\<rparr>
      in c1\<lparr>cache := AList.update key entry (cache c1)\<rparr>)"

definition invalidate :: "string option \<Rightarrow> 'v QueryCache \<Rightarrow> 'v QueryCache" where
  "invalidate pattern c =
     (case pattern of
        None \<Rightarrow> c\<lparr>cache := []\<rparr>
      | Some p \<Rightarrow>
          if p = [] then c\<lparr>cache := []\<rparr>
          else c\<lparr>cache := filter (\<lambda>(key, entry). \<not> str_includes key p) (cache c)\<rparr>)"

definition invalidateTable :: "string \<Rightarrow> 'v QueryCache \<Rightarrow> 'v QueryCache" where
  "invalidateTable tableName c = invalidate (Some (toLowerCase tableName)) c"

definition shouldCache :: "string \<Rightarrow> bool" where
  "shouldCache sql =
     (let trimmedSql = toLowerCase (trim sql)
      in startsWith trimmedSql ''select'' \<or> startsWith trimmedSql ''show''
         \<or> startsWith trimmedSql ''describe'' \<or> startsWith trimmedSql ''desc'')"

section \<open>Errors, the data store, mysql-client.ts\<close>

datatype ErrorCode = InvalidRequest | MethodNotFound | InternalError

text \<open>
  What the code throws. \<open>ErrorFrom p e\<close> is \<^verbatim>\<open>new Error(`p${e}`)\<close> and
  \<open>McpErrorFrom code p e\<close> is \<^verbatim>\<open>new McpError(code, `p${e}`)\<close>, an error whose message
  embeds another error; \<open>DriverError\<close> is an error raised by the MySQL driver.
\<close>

datatype thrown =
    Error string
  | ErrorFrom string thrown
  | TypeError string
  | ZodError string
  | DriverError string
  | McpError ErrorCode string
  | McpErrorFrom ErrorCode string thrown

text \<open>
  \<^verbatim>\<open>ConnectionConfig\<close>; its field \<^verbatim>\<open>password\<close> is \<open>conn_password\<close> here, since
  \<open>password\<close> is the field of \<open>User\<close>.
\<close>

record ConnectionConfig =
  host :: string
  port :: "int option"
  user :: string
  conn_password :: string
  database :: "string option"

datatype event =
    Connect ConnectionConfig "nat option"
  | End nat
  | Execute nat string "json list option"

text \<open>
  The data store as the client sees it: \<open>refuses\<close> says which configurations
  \<^verbatim>\<open>mysql.createConnection\<close> rejects and with which error, \<open>openConns\<close> are the handles
  that are open, \<open>respond\<close> is the answer of the server to a statement (it may depend on
  everything that happened before), \<open>events\<close> is the log of the driver calls.
  Handles are numbered from \<open>nextHandle\<close>; ending a connection always succeeds.
\<close>

record World =
  refuses :: "ConnectionConfig \<Rightarrow> thrown option"
  openConns :: "nat list"
  nextHandle :: nat
  respond :: "event list \<Rightarrow> string \<Rightarrow> json list option \<Rightarrow> thrown + json"
  events :: "event list"

definition createConnection :: "ConnectionConfig \<Rightarrow> World \<Rightarrow> (thrown + nat) \<times> World" where
  "createConnection cfg w =
     (case refuses w cfg of
        Some e \<Rightarrow> (Inl e, w\<lparr>events := events w @ [Connect cfg None]\<rparr>)
      | None \<Rightarrow>
          (Inr (nextHandle w),
           w\<lparr>openConns := openConns w @ [nextHandle w], nextHandle := Suc (nextHandle w),
             events := events w @ [Connect cfg (Some (nextHandle w))]\<rparr>))"

definition end_connection :: "nat \<Rightarrow> World \<Rightarrow> World" where
  "end_connection h w = w\<lparr>openConns := removeAll h (openConns w), events := events w @ [End h]\<rparr>"

definition execute :: "nat \<Rightarrow> string \<Rightarrow> json list option \<Rightarrow> World \<Rightarrow> (thrown + json) \<times> World" where
  "execute h sql params w =
     (if h \<in> set (openConns w)
      then (respond w (events w) sql params, w\<lparr>events := events w @ [Execute h sql params]\<rparr>)
      else (Inl (DriverError ''connection is closed''), w))"

record MySQLClient =
  connection :: "nat option"
  config :: ConnectionConfig

text \<open>
  The constructor parses the configuration with the zod schema, which rejects a port
  that is not a number (\<^verbatim>\<open>parseInt\<close> gave \<^verbatim>\<open>NaN\<close>, here \<open>None\<close>).
\<close>

definition newMySQLClient :: "ConnectionConfig \<Rightarrow> thrown + MySQLClient" where
  "newMySQLClient cfg =
     (case port cfg of
        None \<Rightarrow> Inl (ZodError ''port'')
      | Some p \<Rightarrow> Inr \<lparr>connection = None, config = cfg\<rparr>)"

definition connect :: "MySQLClient \<Rightarrow> World \<Rightarrow> thrown option \<times> MySQLClient \<times> World" where
  "connect cl w =
     (case createConnection (config cl) w of
        (Inl e, w') \<Rightarrow> (Some (ErrorFrom ''Failed to connect to MySQL: '' e), cl, w')
      | (Inr h, w') \<Rightarrow> (None, cl\<lparr>connection := Some h\<rparr>, w'))"

definition disconnect :: "MySQLClient \<Rightarrow> World \<Rightarrow> MySQLClient \<times> World" where
  "disconnect cl w =
     (case connection cl of
        None \<Rightarrow> (cl, w)
      | Some h \<Rightarrow> (cl\<lparr>connection := None\<rparr>, end_connection h w))"

definition query :: "MySQLClient \<Rightarrow> string \<Rightarrow> json list option \<Rightarrow> World \<Rightarrow> (thrown + json) \<times> World" where
  "query cl sql params w =
     (case connection cl of
        None \<Rightarrow> (Inl (Error ''Not connected to database''), w)
      | Some h \<Rightarrow>
          (case execute h sql params w of
             (Inl e, w') \<Rightarrow> (Inl (ErrorFrom ''Query failed: '' e), w')
           | (Inr rows, w') \<Rightarrow> (Inr (if isArray rows then rows else JArr []), w')))"

text \<open>The statement builders; \<open>bt\<close> is the backtick, \<open>truthyStr\<close> the test \<^verbatim>\<open>if (database)\<close>.\<close>

definition bt :: string where
  "bt = [CHR 0x60]"

definition truthyStr :: "string option \<Rightarrow> bool" where
  "truthyStr d = (case d of None \<Rightarrow> False | Some s \<Rightarrow> s \<noteq> [])"

definition tableRef :: "string \<Rightarrow> string option \<Rightarrow> string" where
  "tableRef tableName db =
     (if truthyStr db then bt @ the db @ bt @ ''.'' @ bt @ tableName @ bt
      else bt @ tableName @ bt)"

definition listDatabases :: "MySQLClient \<Rightarrow> World \<Rightarrow> (thrown + json) \<times> World" where
  "listDatabases cl w = query cl ''SHOW DATABASES'' None w"

definition listTables :: "MySQLClient \<Rightarrow> string option \<Rightarrow> World \<Rightarrow> (thrown + json) \<times> World" where
  "listTables cl db w =
     query cl (if truthyStr db then ''SHOW TABLES FROM '' @ bt @ the db @ bt else ''SHOW TABLES'')
       None w"

definition describeTable :: "MySQLClient \<Rightarrow> string \<Rightarrow> string option \<Rightarrow> World \<Rightarrow> (thrown + json) \<times> World" where
  "describeTable cl tableName db w = query cl (''DESCRIBE '' @ tableRef tableName db) None w"

definition getTableData :: "MySQLClient \<Rightarrow> string \<Rightarrow> int \<Rightarrow> string option \<Rightarrow> World \<Rightarrow> (thrown + json) \<times> World" where
  "getTableData cl tableName limit db w =
     query cl (''SELECT * FROM '' @ tableRef tableName db @ '' LIMIT ?'') (Some [JNum limit]) w"

text \<open>
  \<^verbatim>\<open>insertData\<close>, \<^verbatim>\<open>updateData\<close> and \<^verbatim>\<open>deleteData\<close> call
  \<^verbatim>\<open>this.connection!.execute\<close> directly: without a connection that is a \<^verbatim>\<open>TypeError\<close>.
\<close>

definition executeDirect :: "MySQLClient \<Rightarrow> string \<Rightarrow> json list \<Rightarrow> World \<Rightarrow> (thrown + json) \<times> World" where
  "executeDirect cl sql vals w =
     (case connection cl of
        None \<Rightarrow>
          (Inl (TypeError (''Cannot read properties of null (reading '' @ [CHR 0x27]
                            @ ''execute'' @ [CHR 0x27] @ '')'')), w)
      | Some h \<Rightarrow> execute h sql (Some vals) w)"

definition assignments :: "string \<Rightarrow> (string \<times> json) list \<Rightarrow> string" where
  "assignments sep kvs = join sep (map (\<lambda>kv. bt @ fst kv @ bt @ '' = ?'') kvs)"

definition insertData :: "MySQLClient \<Rightarrow> string \<Rightarrow> (string \<times> json) list \<Rightarrow> string option \<Rightarrow> World \<Rightarrow> (thrown + json) \<times> World" where
  "insertData cl tableName d db w =
     executeDirect cl
       (''INSERT INTO '' @ tableRef tableName db @ '' ('' @ bt
          @ join (bt @ '', '' @ bt) (map fst d) @ bt @ '') VALUES (''
          @ join '', '' (map (\<lambda>v. ''?'') (map snd d)) @ '')'')
       (map snd d) w"

definition updateData :: "MySQLClient \<Rightarrow> string \<Rightarrow> (string \<times> json) list \<Rightarrow> (string \<times> json) list \<Rightarrow> string option \<Rightarrow> World \<Rightarrow> (thrown + json) \<times> World" where
  "updateData cl tableName d wh db w =
     executeDirect cl
       (''UPDATE '' @ tableRef tableName db @ '' SET '' @ assignments '', '' d
          @ '' WHERE '' @ assignments '' AND '' wh)
       (map snd d @ map snd wh) w"

definition deleteData :: "MySQLClient \<Rightarrow> string \<Rightarrow> (string \<times> json) list \<Rightarrow> string option \<Rightarrow> World \<Rightarrow> (thrown + json) \<times> World" where
  "deleteData cl tableName wh db w =
     executeDirect cl
       (''DELETE FROM '' @ tableRef tableName db @ '' WHERE '' @ assignments '' AND '' wh)
       (map snd wh) w"

section \<open>index.ts\<close>

text \<open>
  The \<^verbatim>\<open>Config\<close> of \<^verbatim>\<open>config-watcher.ts\<close>. The port is \<open>None\<close> when \<^verbatim>\<open>parseInt\<close>
  gave \<^verbatim>\<open>NaN\<close>.
\<close>

record Config =
  MYSQL_HOST :: string
  MYSQL_PORT :: "int option"
  MYSQL_USER :: string
  MYSQL_PASSWORD :: string
  MYSQL_DATABASE :: "string option"
  MYSQL_ADMIN_USER :: "string option"
  MYSQL_ADMIN_PASSWORD :: "string option"
  MYSQL_RW_USER :: "string option"
  MYSQL_RW_PASSWORD :: "string option"
  MYSQL_RO_USER :: "string option"
  MYSQL_RO_PASSWORD :: "string option"

record Server =
  mysqlClient :: "MySQLClient option"
  authManager :: AuthManager
  queryCache :: "json QueryCache"
  configWatcher :: Config

definition connectionConfigOf :: "Config \<Rightarrow> ConnectionConfig" where
  "connectionConfigOf cfg =
     \<lparr>host = MYSQL_HOST cfg, port = MYSQL_PORT cfg, user = MYSQL_USER cfg,
      conn_password = MYSQL_PASSWORD cfg, database = MYSQL_DATABASE cfg\<rparr>"

definition initializeMySQLClient :: "Server \<Rightarrow> World \<Rightarrow> thrown option \<times> Server \<times> World" where
  "initializeMySQLClient s w =
     (let cfg = configWatcher s;
          connectionConfig = connectionConfigOf cfg
      in if user connectionConfig = [] \<or> conn_password connectionConfig = []
         then (Some (Error ''MYSQL_USER and MYSQL_PASSWORD are required''), s, w)
         else case newMySQLClient connectionConfig of
                Inl e \<Rightarrow> (Some e, s, w)
              | Inr cl \<Rightarrow>
                  (case connect cl w of
                     (err, cl', w') \<Rightarrow> (err, s\<lparr>mysqlClient := Some cl'\<rparr>, w')))"

text \<open>
  The listener registered with \<^verbatim>\<open>configWatcher.onChange\<close>. The watcher has already
  stored the new configuration when it notifies; an error is logged and swallowed.
\<close>

definition onChange :: "Server \<Rightarrow> World \<Rightarrow> Server \<times> World" where
  "onChange s w =
     (case (case mysqlClient s of
              None \<Rightarrow> (s, w)
            | Some cl \<Rightarrow> (case disconnect cl w of
                            (cl', w') \<Rightarrow> (s\<lparr>mysqlClient := Some cl'\<rparr>, w'))) of
        (s1, w1) \<Rightarrow>
          (case initializeMySQLClient s1 w1 of
             (Some e, s2, w2) \<Rightarrow> (s2, w2)
           | (None, s2, w2) \<Rightarrow> (s2\<lparr>queryCache := invalidate None (queryCache s2)\<rparr>, w2)))"

text \<open>
  \<^verbatim>\<open>ConfigWatcher.startWatching\<close>: the file changed and was loaded as \<open>loaded\<close>; the
  listeners run when it differs from the configuration held so far.
\<close>

definition configFileChanged :: "Config \<Rightarrow> Server \<Rightarrow> World \<Rightarrow> Server \<times> World" where
  "configFileChanged loaded s w =
     (let oldConfig = configWatcher s; s' = s\<lparr>configWatcher := loaded\<rparr>
      in if oldConfig \<noteq> loaded then onChange s' w else (s', w))"

definition permissionName :: "Permission \<Rightarrow> string" where
  "permissionName p =
     (case p of SELECT \<Rightarrow> ''select'' | INSERT \<Rightarrow> ''insert'' | UPDATE \<Rightarrow> ''update''
      | DELETE \<Rightarrow> ''delete'' | SHOW \<Rightarrow> ''show'' | DESCRIBE \<Rightarrow> ''describe'')"

definition authenticateAndAuthorize :: "AuthManager \<Rightarrow> string \<Rightarrow> string \<Rightarrow> string option \<Rightarrow> thrown option" where
  "authenticateAndAuthorize am sessionId operation sql =
     (case getUserFromSession am sessionId of
        None \<Rightarrow> Some (McpError InvalidRequest ''Invalid session ID or session expired'')
      | Some u \<Rightarrow>
          let permission = (if operation = ''mysql_query'' \<and> truthyStr sql
                            then parseQueryPermission (the sql)
                            else getPermissionForOperation operation)
          in if \<not> hasPermission u permission
             then Some (McpError InvalidRequest
                          (''User '' @ username u @ '' does not have permission for ''
                             @ permissionName permission @ '' operation''))
             else None)"

text \<open>A tool call: the name of the tool with its arguments as the handler destructures them.\<close>

datatype request =
    Mysql_auth string string
  | Mysql_query string string "json list option"
  | Mysql_list_databases string
  | Mysql_list_tables string "string option"
  | Mysql_describe_table string string "string option"
  | Mysql_get_table_data string string "int option" "string option"
  | Mysql_insert string string "(string \<times> json) list" "string option"
  | Mysql_update string string "(string \<times> json) list" "(string \<times> json) list" "string option"
  | Mysql_delete string string "(string \<times> json) list" "string option"
  | Unknown_tool string

text \<open>
  The text of a successful response, kept as the template that produced it together with
  the values that the template renders (the projection of the rows to database or table
  names belongs to the rendering).
\<close>

datatype response =
    AuthenticationSuccessful string
  | CachedRows json
  | QueryRows json
  | AvailableDatabases json
  | TablesIn "string option" json
  | SchemaFor string "string option" json
  | DataFrom string "string option" int json
  | InsertedInto string "string option" json
  | UpdatedIn string "string option" json
  | DeletedFrom string "string option" json

text \<open>
  What a call reads from outside: the clock when the cache is consulted (\<open>now\<close>), the
  clock when the result is stored after the query has been awaited (\<open>later\<close>), and the
  string \<^verbatim>\<open>Math.random().toString(36).substring(7)\<close>.
\<close>

record Outside =
  now :: int
  later :: int
  random36 :: string

definition failed :: "thrown \<Rightarrow> thrown + response" where
  "failed e = Inl (McpErrorFrom InternalError ''Tool execution failed: '' e)"

definition finish :: "(json \<Rightarrow> response) \<Rightarrow> Server \<Rightarrow> (thrown + json) \<times> World \<Rightarrow> (thrown + response) \<times> Server \<times> World" where
  "finish render s r =
     (case r of
        (Inl e, w') \<Rightarrow> (failed e, s, w')
      | (Inr rows, w') \<Rightarrow> (Inr (render rows), s, w'))"

definition finishInvalidating :: "string \<Rightarrow> (json \<Rightarrow> response) \<Rightarrow> Server \<Rightarrow> (thrown + json) \<times> World \<Rightarrow> (thrown + response) \<times> Server \<times> World" where
  "finishInvalidating table render s r =
     (case r of
        (Inl e, w') \<Rightarrow> (failed e, s, w')
      | (Inr result, w') \<Rightarrow>
          (Inr (render result), s\<lparr>queryCache := invalidateTable table (queryCache s)\<rparr>, w'))"

definition mysql_query :: "MySQLClient \<Rightarrow> string \<Rightarrow> string \<Rightarrow> json list option \<Rightarrow> Outside \<Rightarrow> Server \<Rightarrow> World \<Rightarrow> (thrown + response) \<times> Server \<times> World" where
  "mysql_query cl session_id q params out s w =
     (case authenticateAndAuthorize (authManager s) session_id ''mysql_query'' (Some q) of
        Some e \<Rightarrow> (failed e, s, w)
      | None \<Rightarrow>
          (case (if shouldCache q then get (now out) (queryCache s) q params
                 else (None, queryCache s)) of
             (cachedResult, qc1) \<Rightarrow>
               if (case cachedResult of None \<Rightarrow> False | Some d \<Rightarrow> truthy d)
               then (Inr (CachedRows (the cachedResult)), s\<lparr>queryCache := qc1\<rparr>, w)
               else (case query cl q params w of
                       (Inl e, w') \<Rightarrow> (failed e, s\<lparr>queryCache := qc1\<rparr>, w')
                     | (Inr result, w') \<Rightarrow>
                         (Inr (QueryRows result),
                          s\<lparr>queryCache := (if shouldCache q
                                            then set_entry (later out) qc1 q result params None
                                            else qc1)\<rparr>,
                          w'))))"

definition callTool :: "request \<Rightarrow> Outside \<Rightarrow> Server \<Rightarrow> World \<Rightarrow> (thrown + response) \<times> Server \<times> World" where
  "callTool req out s w =
     (case mysqlClient s of
        None \<Rightarrow> (Inl (McpError InternalError ''MySQL client not initialized''), s, w)
      | Some cl \<Rightarrow>
          (case req of
             Mysql_auth uname pw \<Rightarrow>
               (case authenticate (authManager s) uname pw (random36 out) of
                  (sessionId, am') \<Rightarrow>
                    if truthyStr sessionId
                    then (Inr (AuthenticationSuccessful (the sessionId)), s\<lparr>authManager := am'\<rparr>, w)
                    else (failed (McpError InvalidRequest ''Invalid username or password''),
                          s\<lparr>authManager := am'\<rparr>, w))
           | Mysql_query session_id q params \<Rightarrow> mysql_query cl session_id q params out s w
           | Mysql_list_databases session_id \<Rightarrow>
               (case authenticateAndAuthorize (authManager s) session_id ''mysql_list_databases'' None of
                  Some e \<Rightarrow> (failed e, s, w)
                | None \<Rightarrow> finish AvailableDatabases s (listDatabases cl w))
           | Mysql_list_tables session_id db \<Rightarrow>
               (case authenticateAndAuthorize (authManager s) session_id ''mysql_list_tables'' None of
                  Some e \<Rightarrow> (failed e, s, w)
                | None \<Rightarrow> finish (TablesIn db) s (listTables cl db w))
           | Mysql_describe_table session_id table db \<Rightarrow>
               (case authenticateAndAuthorize (authManager s) session_id ''mysql_describe_table'' None of
                  Some e \<Rightarrow> (failed e, s, w)
                | None \<Rightarrow> finish (SchemaFor table db) s (describeTable cl table db w))
           | Mysql_get_table_data session_id table limit db \<Rightarrow>
               (case authenticateAndAuthorize (authManager s) session_id ''mysql_get_table_data'' None of
                  Some e \<Rightarrow> (failed e, s, w)
                | None \<Rightarrow>
                    (let lim = (case limit of None \<Rightarrow> 100 | Some l \<Rightarrow> l)
                     in finish (DataFrom table db lim) s (getTableData cl table lim db w)))
           | Mysql_insert session_id table d db \<Rightarrow>
               (case authenticateAndAuthorize (authManager s) session_id ''mysql_insert'' None of
                  Some e \<Rightarrow> (failed e, s, w)
                | None \<Rightarrow> finishInvalidating table (InsertedInto table db) s (insertData cl table d db w))
           | Mysql_update session_id table d wh db \<Rightarrow>
               (case authenticateAndAuthorize (authManager s) session_id ''mysql_update'' None of
                  Some e \<Rightarrow> (failed e, s, w)
                | None \<Rightarrow> finishInvalidating table (UpdatedIn table db) s (updateData cl table d wh db w))
           | Mysql_delete session_id table wh db \<Rightarrow>
               (case authenticateAndAuthorize (authManager s) session_id ''mysql_delete'' None of
                  Some e \<Rightarrow> (failed e, s, w)
                | None \<Rightarrow> finishInvalidating table (DeletedFrom table db) s (deleteData cl table wh db w))
           | Unknown_tool name \<Rightarrow>
               (failed (McpError MethodNotFound (''Unknown tool: '' @ name)), s, w)))"

section \<open>A running example\<close>

text \<open>
  A server that is connected under \<open>configA\<close> with the open handle 0, has a session of
  the admin account and one cached result. The data store accepts connections to the
  database \<^verbatim>\<open>shop\<close> only and answers every statement with a single row. \<open>configB\<close>
  differs from \<open>configA\<close> in the database.
\<close>

definition configA :: Config where
  "configA = \<lparr>MYSQL_HOST = ''localhost'', MYSQL_PORT = Some 3306, MYSQL_USER = ''root'',
               MYSQL_PASSWORD = ''secret'', MYSQL_DATABASE = Some ''shop'',
               MYSQL_ADMIN_USER = None, MYSQL_ADMIN_PASSWORD = None, MYSQL_RW_USER = None,
               MYSQL_RW_PASSWORD = None, MYSQL_RO_USER = None, MYSQL_RO_PASSWORD = None\<rparr>"

definition configB :: Config where
  "configB = configA\<lparr>MYSQL_DATABASE := Some ''archive''\<rparr>"

definition rows1 :: json where
  "rows1 = JArr [JObj [(''id'', JNum 1)]]"

definition world0 :: World where
  "world0 =
     \<lparr>refuses = (\<lambda>cfg. if database cfg = Some ''shop'' then None
                         else Some (DriverError ''Unknown database'')),
      openConns = [0],
      nextHandle = 1,
      respond = (\<lambda>evs sql params. Inr rows1),
      events = [Connect (connectionConfigOf configA) (Some 0)]\<rparr>"

definition server0 :: Server where
  "server0 =
     \<lparr>mysqlClient = Some \<lparr>connection = Some 0, config = connectionConfigOf configA\<rparr>,
      authManager = (newAuthManager Map.empty)\<lparr>sessions := [''s1'' \<mapsto> ''admin'']\<rparr>,
      queryCache = set_entry 1000 (newQueryCache 1000 300000) ''SELECT * FROM t'' rows1 None None,
      configWatcher = configA\<rparr>"

definition outside0 :: Outside where
  "outside0 = \<lparr>now = 2000, later = 2005, random36 = ''k3j9x''\<rparr>"

section \<open>Definitions that follow the wording of the specification\<close>

text \<open>
  The table of section 4.1 of the specification, written as a list of the granted
  (role, class) pairs; every pair that is not listed is denied.
\<close>

definition allows_table :: "(UserRole \<times> Permission) list" where
  "allows_table =
     [(ADMIN, SELECT), (ADMIN, INSERT), (ADMIN, UPDATE), (ADMIN, DELETE), (ADMIN, SHOW),
      (ADMIN, DESCRIBE),
      (READ_WRITE, SELECT), (READ_WRITE, INSERT), (READ_WRITE, UPDATE), (READ_WRITE, SHOW),
      (READ_WRITE, DESCRIBE),
      (READ_ONLY, SELECT), (READ_ONLY, SHOW), (READ_ONLY, DESCRIBE)]"

text \<open>
  The keyword mapping of section 4.3. \<open>classify_token\<close> reads it as the specification
  words it: the leading token (the text up to the first white space) is looked up, and
  every other token gives Select. \<open>classify_prefix\<close> tests instead whether the text starts
  with a keyword, taking the first keyword of the table that does.
\<close>

definition keyword_table :: "(string \<times> Permission) list" where
  "keyword_table =
     [(''select'', SELECT), (''insert'', INSERT), (''update'', UPDATE), (''delete'', DELETE),
      (''show'', SHOW), (''describe'', DESCRIBE), (''desc'', DESCRIBE)]"

definition leadingToken :: "string \<Rightarrow> string" where
  "leadingToken t = takeWhile (\<lambda>c. \<not> isWhiteSpace c) t"

definition classify_token :: "string \<Rightarrow> Permission" where
  "classify_token rawQuery =
     (case map_of keyword_table (leadingToken (toLowerCase (trimStart rawQuery))) of
        Some p \<Rightarrow> p
      | None \<Rightarrow> SELECT)"

definition classify_prefix :: "string \<Rightarrow> Permission" where
  "classify_prefix rawQuery =
     (case find (\<lambda>kp. startsWith (toLowerCase (trimStart rawQuery)) (fst kp)) keyword_table of
        Some kp \<Rightarrow> snd kp
      | None \<Rightarrow> SELECT)"

text \<open>
  \<open>connectable\<close> collects the conditions under which \<open>initializeMySQLClient\<close> ends with
  an open connection; \<open>invalidatedTable\<close> names the table of a structured insert, update
  or delete, and \<open>isRawQuery\<close> recognises the \<^verbatim>\<open>mysql_query\<close> tool.
\<close>

definition connectable :: "Config \<Rightarrow> World \<Rightarrow> bool" where
  "connectable cfg w =
     (MYSQL_USER cfg \<noteq> [] \<and> MYSQL_PASSWORD cfg \<noteq> [] \<and> MYSQL_PORT cfg \<noteq> None
      \<and> refuses w (connectionConfigOf cfg) = None)"

definition invalidatedTable :: "request \<Rightarrow> string option" where
  "invalidatedTable req =
     (case req of
        Mysql_insert session_id table d db \<Rightarrow> Some table
      | Mysql_update session_id table d wh db \<Rightarrow> Some table
      | Mysql_delete session_id table wh db \<Rightarrow> Some table
      | _ \<Rightarrow> None)"

definition isRawQuery :: "request \<Rightarrow> bool" where
  "isRawQuery req = (case req of Mysql_query session_id q params \<Rightarrow> True | _ \<Rightarrow> False)"

text \<open>
  The keys of a cache that was built by \<open>set_entry\<close> are distinct and not empty.
\<close>

definition keys_ok :: "'v QueryCache \<Rightarrow> bool" where
  "keys_ok c = (distinct (map fst (cache c)) \<and> [] \<notin> fst ` set (cache c))"

section \<open>Readers of the JSON text\<close>

text \<open>
  The functions of this section are not part of the program. They read back what
  \<open>JSON_stringify\<close> prints, and serve to prove that the text determines the value:
  \<open>dval\<close> reads a decimal numeral, \<open>hexVal\<close> a hexadecimal digit, \<open>unquoteChar\<close> one
  character of a quoted string with its escape. \<open>follow r\<close> says that \<open>r\<close> can come after a
  value inside an array or an object: it is empty or starts with a comma or a closing
  bracket. \<open>kindOf\<close> tells from the first character of a text which kind of value it
  prints, \<open>ctor\<close> is the kind of a value.
\<close>

definition dval :: "string \<Rightarrow> nat" where
  "dval s = foldl (\<lambda>a c. 10 * a + (of_char c - 48)) 0 s"

definition follow :: "string \<Rightarrow> bool" where
  "follow r = (case r of [] \<Rightarrow> True | c # cs \<Rightarrow> c \<in> set '',]}'')"

definition hexVal :: "char \<Rightarrow> nat" where
  "hexVal c = (if c \<in> set ''0123456789'' then of_char c - 48 else of_char c - 87)"

definition unescapes :: "(char \<times> char) list" where
  "unescapes = [(CHR 0x22, CHR 0x22), (CHR 0x5C, CHR 0x5C), (CHR ''b'', CHR 0x08),
                (CHR ''t'', CHR 0x09), (CHR ''n'', CHR 0x0A), (CHR ''f'', CHR 0x0C),
                (CHR ''r'', CHR 0x0D)]"

definition unquoteChar :: "string \<Rightarrow> (char \<times> string) option" where
  "unquoteChar s =
     (case s of
        [] \<Rightarrow> None
      | x # rest \<Rightarrow>
          if x \<noteq> CHR 0x5C then Some (x, rest)
          else (case rest of
                  [] \<Rightarrow> None
                | y # rest' \<Rightarrow>
                    if y = CHR ''u''
                    then (case rest' of
                            a # b # h1 # h2 # rest'' \<Rightarrow>
                              Some (char_of (16 * hexVal h1 + hexVal h2), rest'')
                          | _ \<Rightarrow> None)
                    else (case map_of unescapes y of
                            None \<Rightarrow> None
                          | Some d \<Rightarrow> Some (d, rest'))))"

definition kindOf :: "char \<Rightarrow> nat" where
  "kindOf c =
     (if c = CHR ''n'' then 0
      else if c \<in> set ''tf'' then 1
      else if c \<in> set ''-0123456789'' then 2
      else if c = CHR 0x22 then 3
      else if c = CHR ''['' then 4
      else if c = CHR ''{'' then 5
      else 6)"

fun ctor :: "json \<Rightarrow> nat" where
  "ctor JNull = 0"
| "ctor (JBool b) = 1"
| "ctor (JNum n) = 2"
| "ctor (JStr s) = 3"
| "ctor (JArr xs) = 4"
| "ctor (JObj kvs) = 5"

section \<open>Auxiliary lemmas\<close>

subsection \<open>Strings and the query classifier\<close>

lemma lowerChar_ws: "isWhiteSpace c \<Longrightarrow> lowerChar c = c"
  unfolding isWhiteSpace_def lowerChar_def Let_def
  by auto

lemma startsWith_length: "startsWith s p \<Longrightarrow> length p \<le> length s"
proof -
  assume "startsWith s p"
  then have "length (take (length p) s) = length p"
    unfolding startsWith_def by simp
  then show ?thesis by simp
qed

lemma startsWith_append_long:
  "length p \<le> length s \<Longrightarrow> startsWith (s @ r) p = startsWith s p"
  unfolding startsWith_def by simp

lemma startsWith_append_short:
  assumes "length s < length p" and "startsWith (s @ r) p"
  shows "\<exists>c. c \<in> set r \<and> c \<in> set p"
proof -
  have "p = s @ take (length p - length s) r"
    using assms unfolding startsWith_def by simp
  moreover from this assms(1) have "take (length p - length s) r \<noteq> []"
    by auto
  then obtain c where "c \<in> set (take (length p - length s) r)"
    by (cases "take (length p - length s) r") auto
  ultimately show ?thesis
    by (metis Un_iff in_set_takeD set_append)
qed

lemma trimEnd_decomp: "\<exists>r. t = trimEnd t @ r \<and> (\<forall>c\<in>set r. isWhiteSpace c)"
proof -
  have "rev t = takeWhile isWhiteSpace (rev t) @ dropWhile isWhiteSpace (rev t)"
    by simp
  then have "rev (rev t) = rev (takeWhile isWhiteSpace (rev t) @ dropWhile isWhiteSpace (rev t))"
    by simp
  then have "t = rev (dropWhile isWhiteSpace (rev t)) @ rev (takeWhile isWhiteSpace (rev t))"
    by (simp only: rev_rev_ident rev_append)
  moreover have "\<forall>c\<in>set (rev (takeWhile isWhiteSpace (rev t))). isWhiteSpace c"
    by (auto dest: set_takeWhileD)
  ultimately show ?thesis
    unfolding trimEnd_def by blast
qed

lemma startsWith_trimEnd:
  assumes kw: "\<forall>c\<in>set kw. \<not> isWhiteSpace c"
  shows "startsWith (toLowerCase (trimEnd t)) kw = startsWith (toLowerCase t) kw"
proof -
  obtain r where t: "t = trimEnd t @ r" and r: "\<forall>c\<in>set r. isWhiteSpace c"
    using trimEnd_decomp by blast
  have lr: "map lowerChar r = r"
    using r by (simp add: map_idI lowerChar_ws)
  have "toLowerCase t = map lowerChar (trimEnd t @ r)"
    unfolding toLowerCase_def using t by simp
  then have eq: "toLowerCase t = toLowerCase (trimEnd t) @ r"
    unfolding toLowerCase_def using lr by simp
  show ?thesis
  proof (cases "length kw \<le> length (toLowerCase (trimEnd t))")
    case True
    then show ?thesis
      unfolding eq by (simp add: startsWith_append_long)
  next
    case False
    then have short: "length (toLowerCase (trimEnd t)) < length kw" by simp
    then have "\<not> startsWith (toLowerCase (trimEnd t)) kw"
      using startsWith_length by fastforce
    moreover have "\<not> startsWith (toLowerCase (trimEnd t) @ r) kw"
      using startsWith_append_short [OF short] kw r by blast
    ultimately show ?thesis unfolding eq by simp
  qed
qed

lemma kw_no_ws: "kp \<in> set keyword_table \<Longrightarrow> \<forall>c\<in>set (fst kp). \<not> isWhiteSpace c"
  unfolding keyword_table_def isWhiteSpace_def by auto

lemma startsWith_trim:
  "kp \<in> set keyword_table \<Longrightarrow>
     startsWith (toLowerCase (trim s)) (fst kp) = startsWith (toLowerCase (trimStart s)) (fst kp)"
  unfolding trim_def by (rule startsWith_trimEnd) (rule kw_no_ws)

lemma parseQueryPermission_classify_prefix:
  "parseQueryPermission sql = classify_prefix sql"
proof -
  have sw: "\<And>kw p. (kw, p) \<in> set keyword_table \<Longrightarrow>
      startsWith (toLowerCase (trim sql)) kw = startsWith (toLowerCase (trimStart sql)) kw"
    using startsWith_trim [of "(kw, p)" for kw p] by simp
  have 1: "startsWith (toLowerCase (trim sql)) ''select'' = startsWith (toLowerCase (trimStart sql)) ''select''"
    by (rule sw [of _ SELECT]) (simp add: keyword_table_def)
  have 2: "startsWith (toLowerCase (trim sql)) ''insert'' = startsWith (toLowerCase (trimStart sql)) ''insert''"
    by (rule sw [of _ INSERT]) (simp add: keyword_table_def)
  have 3: "startsWith (toLowerCase (trim sql)) ''update'' = startsWith (toLowerCase (trimStart sql)) ''update''"
    by (rule sw [of _ UPDATE]) (simp add: keyword_table_def)
  have 4: "startsWith (toLowerCase (trim sql)) ''delete'' = startsWith (toLowerCase (trimStart sql)) ''delete''"
    by (rule sw [of _ DELETE]) (simp add: keyword_table_def)
  have 5: "startsWith (toLowerCase (trim sql)) ''show'' = startsWith (toLowerCase (trimStart sql)) ''show''"
    by (rule sw [of _ SHOW]) (simp add: keyword_table_def)
  have 6: "startsWith (toLowerCase (trim sql)) ''describe'' = startsWith (toLowerCase (trimStart sql)) ''describe''"
    by (rule sw [of _ DESCRIBE]) (simp add: keyword_table_def)
  have 7: "startsWith (toLowerCase (trim sql)) ''desc'' = startsWith (toLowerCase (trimStart sql)) ''desc''"
    by (rule sw [of _ DESCRIBE]) (simp add: keyword_table_def)
  show ?thesis
    unfolding parseQueryPermission_def classify_prefix_def keyword_table_def Let_def 1 2 3 4 5 6 7
    by simp
qed

lemma leadingToken_prefix: "\<exists>rest. t = leadingToken t @ rest"
proof
  show "t = leadingToken t @ dropWhile (\<lambda>c. \<not> isWhiteSpace c) t"
    unfolding leadingToken_def by simp
qed

lemma kw_cases:
  assumes kw: "(kw, p) \<in> set keyword_table"
  shows "(kw = ''select'' \<and> p = SELECT) \<or> (kw = ''insert'' \<and> p = INSERT)
    \<or> (kw = ''update'' \<and> p = UPDATE) \<or> (kw = ''delete'' \<and> p = DELETE)
    \<or> (kw = ''show'' \<and> p = SHOW) \<or> (kw = ''describe'' \<and> p = DESCRIBE)
    \<or> (kw = ''desc'' \<and> p = DESCRIBE)"
  using kw unfolding keyword_table_def by simp

lemma classify_prefix_select:
  "toLowerCase (trimStart sql) = ''select'' @ rest \<Longrightarrow> classify_prefix sql = SELECT"
  unfolding classify_prefix_def keyword_table_def startsWith_def by simp

lemma classify_prefix_insert:
  "toLowerCase (trimStart sql) = ''insert'' @ rest \<Longrightarrow> classify_prefix sql = INSERT"
  unfolding classify_prefix_def keyword_table_def startsWith_def by simp

lemma classify_prefix_update:
  "toLowerCase (trimStart sql) = ''update'' @ rest \<Longrightarrow> classify_prefix sql = UPDATE"
  unfolding classify_prefix_def keyword_table_def startsWith_def by simp

lemma classify_prefix_delete:
  "toLowerCase (trimStart sql) = ''delete'' @ rest \<Longrightarrow> classify_prefix sql = DELETE"
  unfolding classify_prefix_def keyword_table_def startsWith_def by simp

lemma classify_prefix_show:
  "toLowerCase (trimStart sql) = ''show'' @ rest \<Longrightarrow> classify_prefix sql = SHOW"
  unfolding classify_prefix_def keyword_table_def startsWith_def by simp

lemma classify_prefix_describe:
  "toLowerCase (trimStart sql) = ''describe'' @ rest \<Longrightarrow> classify_prefix sql = DESCRIBE"
  unfolding classify_prefix_def keyword_table_def startsWith_def by simp

lemma classify_prefix_desc:
  "toLowerCase (trimStart sql) = ''desc'' @ rest \<Longrightarrow> classify_prefix sql = DESCRIBE"
  unfolding classify_prefix_def keyword_table_def startsWith_def by simp

lemma classify_prefix_keyword:
  assumes t: "toLowerCase (trimStart sql) = kw @ rest"
    and kw: "(kw, p) \<in> set keyword_table"
  shows "classify_prefix sql = p"
  using kw_cases [OF kw] t
    classify_prefix_select [of sql rest] classify_prefix_insert [of sql rest]
    classify_prefix_update [of sql rest] classify_prefix_delete [of sql rest]
    classify_prefix_show [of sql rest] classify_prefix_describe [of sql rest]
    classify_prefix_desc [of sql rest]
  by blast

lemma token_then_prefix:
  assumes "map_of keyword_table (leadingToken (toLowerCase (trimStart sql))) = Some p"
  shows "classify_prefix sql = p"
proof -
  obtain rest where t: "toLowerCase (trimStart sql) = leadingToken (toLowerCase (trimStart sql)) @ rest"
    using leadingToken_prefix by blast
  have "(leadingToken (toLowerCase (trimStart sql)), p) \<in> set keyword_table"
    using assms by (rule map_of_SomeD)
  with t show ?thesis by (rule classify_prefix_keyword)
qed

subsection \<open>The JSON text determines the value\<close>

lemma digit_table:
  "list_all (\<lambda>m. (of_char (''0123456789'' ! m) :: nat) = 48 + m) [0..<10]"
  by code_simp

lemma digit_of: "n < 10 \<Longrightarrow> of_char (''0123456789'' ! n) = 48 + n"
proof -
  assume "n < 10"
  then have "n \<in> set [0..<10]" by simp
  then show ?thesis
    using digit_table unfolding list_all_iff by blast
qed

lemma digit_in: "n < 10 \<Longrightarrow> ''0123456789'' ! n \<in> set ''0123456789''"
  by (rule nth_mem) simp

lemma decimal_digits: "set (decimal n) \<subseteq> set ''0123456789'' \<and> decimal n \<noteq> []"
proof (induction n rule: decimal.induct)
  case (1 n)
  show ?case
  proof (cases "n < 10")
    case True
    then show ?thesis
      using digit_in [of n] by (subst decimal.simps, subst decimal.simps) simp
  next
    case False
    then have "decimal n = decimal (n div 10) @ [''0123456789'' ! (n mod 10)]"
      by (subst decimal.simps) simp
    moreover have "''0123456789'' ! (n mod 10) \<in> set ''0123456789''"
      by (rule digit_in) simp
    ultimately show ?thesis
      using 1 False by auto
  qed
qed

lemma dval_decimal: "dval (decimal n) = n"
proof (induction n rule: decimal.induct)
  case (1 n)
  show ?case
  proof (cases "n < 10")
    case True
    then have "decimal n = [''0123456789'' ! n]"
      by (subst decimal.simps) simp
    then show ?thesis
      using digit_of [OF True] by (simp add: dval_def)
  next
    case False
    have m: "n mod 10 < 10" by simp
    have d: "decimal n = decimal (n div 10) @ [''0123456789'' ! (n mod 10)]"
      using False by (subst decimal.simps) simp
    have "dval (decimal n) = 10 * dval (decimal (n div 10)) + (of_char (''0123456789'' ! (n mod 10)) - 48)"
      unfolding d by (simp add: dval_def)
    also have "\<dots> = 10 * (n div 10) + n mod 10"
      using 1 False digit_of [OF m] by simp
    finally show ?thesis by simp
  qed
qed

lemma decimal_inj: "decimal n = decimal m \<Longrightarrow> n = m"
  by (metis dval_decimal)

lemma takeWhile_digits:
  assumes "follow r"
  shows "takeWhile (\<lambda>c. c \<in> set ''0123456789'') (decimal n @ r) = decimal n"
proof -
  have "takeWhile (\<lambda>c. c \<in> set ''0123456789'') r = []"
    using assms by (cases r) (auto simp: follow_def)
  moreover have "\<And>x. x \<in> set (decimal n) \<Longrightarrow> x \<in> set ''0123456789''"
    using decimal_digits [of n] by blast
  ultimately show ?thesis
    by (simp add: takeWhile_append2)
qed

lemma decimal_append_inj:
  assumes "decimal n @ r = decimal m @ r'" and "follow r" and "follow r'"
  shows "n = m \<and> r = r'"
proof -
  have "decimal n = decimal m"
    using takeWhile_digits [OF assms(2), of n] takeWhile_digits [OF assms(3), of m] assms(1)
    by simp
  then show ?thesis
    using assms(1) decimal_inj by auto
qed

lemma decimal_hd: "\<exists>c cs. decimal n = c # cs \<and> c \<in> set ''0123456789''"
  using decimal_digits [of n] by (cases "decimal n") auto

lemma showInt_append_inj:
  assumes "showInt i @ r = showInt j @ r'" and "follow r" and "follow r'"
  shows "i = j \<and> r = r'"
proof -
  obtain c cs where ci: "decimal (nat \<bar>i\<bar>) = c # cs" "c \<in> set ''0123456789''"
    using decimal_hd by blast
  obtain d ds where dj: "decimal (nat \<bar>j\<bar>) = d # ds" "d \<in> set ''0123456789''"
    using decimal_hd by blast
  show ?thesis
  proof (cases "i < 0")
    case True
    note i = True
    show ?thesis
    proof (cases "j < 0")
      case True
      then have "decimal (nat (- i)) @ r = decimal (nat (- j)) @ r'"
        using assms(1) i by (simp add: showInt_def)
      from decimal_append_inj [OF this assms(2,3)]
      have e: "nat (- i) = nat (- j)" and rr: "r = r'" by simp_all
      from e i True have "i = j" by arith
      with rr show ?thesis by simp
    next
      case False
      then have "nat \<bar>j\<bar> = nat j" by simp
      then have "CHR ''-'' = d"
        using assms(1) i False dj(1) by (simp add: showInt_def)
      then show ?thesis using dj(2) by auto
    qed
  next
    case False
    note i = False
    then have ni: "nat \<bar>i\<bar> = nat i" by simp
    show ?thesis
    proof (cases "j < 0")
      case True
      then have "c = CHR ''-''"
        using assms(1) i ci(1) ni by (simp add: showInt_def)
      then show ?thesis using ci(2) by auto
    next
      case False
      then have "decimal (nat i) @ r = decimal (nat j) @ r'"
        using assms(1) i by (simp add: showInt_def)
      from decimal_append_inj [OF this assms(2,3)]
      have e: "nat i = nat j" and rr: "r = r'" by simp_all
      from e i False have "i = j" by arith
      with rr show ?thesis by simp
    qed
  qed
qed

lemma hexVal_table:
  "list_all (\<lambda>m. hexVal (''0123456789abcdef'' ! m) = m) [0..<16]"
  by code_simp

lemma hexVal_hexChar: "hexVal (hexChar n) = n mod 16"
proof -
  have "n mod 16 \<in> set [0..<16]" by simp
  then show ?thesis
    using hexVal_table unfolding list_all_iff hexChar_def by blast
qed

lemma char_by_code: "of_char c = (of_char d :: nat) \<Longrightarrow> c = d"
  by simp

lemma unquote_escape:
  "(y, d) \<in> set unescapes \<Longrightarrow> unquoteChar (CHR 0x5C # y # r) = Some (d, r)"
  unfolding unescapes_def unquoteChar_def by auto

lemma unquoteChar_quoteChar: "unquoteChar (quoteChar c @ r) = Some (c, r)"
proof -
  let ?n = "of_char c :: nat"
  show ?thesis
  proof (cases "?n = 34 \<or> ?n = 92 \<or> ?n = 8 \<or> ?n = 9 \<or> ?n = 10 \<or> ?n = 12 \<or> ?n = 13")
    case True
    then show ?thesis
    proof (elim disjE)
      assume a: "?n = 34"
      have "c = CHR 0x22" by (rule char_by_code) (simp add: a)
      then show ?thesis
        by (simp add: quoteChar_def unquote_escape unescapes_def)
    next
      assume a: "?n = 92"
      have "c = CHR 0x5C" by (rule char_by_code) (simp add: a)
      then show ?thesis
        by (simp add: quoteChar_def unquote_escape unescapes_def)
    next
      assume a: "?n = 8"
      have "c = CHR 0x08" by (rule char_by_code) (simp add: a)
      then show ?thesis
        by (simp add: quoteChar_def unquote_escape unescapes_def)
    next
      assume a: "?n = 9"
      have "c = CHR 0x09" by (rule char_by_code) (simp add: a)
      then show ?thesis
        by (simp add: quoteChar_def unquote_escape unescapes_def)
    next
      assume a: "?n = 10"
      have "c = CHR 0x0A" by (rule char_by_code) (simp add: a)
      then show ?thesis
        by (simp add: quoteChar_def unquote_escape unescapes_def)
    next
      assume a: "?n = 12"
      have "c = CHR 0x0C" by (rule char_by_code) (simp add: a)
      then show ?thesis
        by (simp add: quoteChar_def unquote_escape unescapes_def)
    next
      assume a: "?n = 13"
      have "c = CHR 0x0D" by (rule char_by_code) (simp add: a)
      then show ?thesis
        by (simp add: quoteChar_def unquote_escape unescapes_def)
    qed
  next
    case False
    note plainish = False
    show ?thesis
    proof (cases "?n < 32")
      case True
      then have q: "quoteChar c = [CHR 0x5C, CHR ''u'', CHR ''0'', CHR ''0'',
                                  hexChar (?n div 16), hexChar ?n]"
        using plainish by (simp add: quoteChar_def Let_def)
      have "16 * ((?n div 16) mod 16) + ?n mod 16 = ?n"
        using True by simp
      then have "char_of (16 * hexVal (hexChar (?n div 16)) + hexVal (hexChar ?n)) = c"
        by (simp add: hexVal_hexChar)
      then show ?thesis
        unfolding q by (simp add: unquoteChar_def)
    next
      case False
      then have q: "quoteChar c = [c]"
        using plainish by (simp add: quoteChar_def Let_def)
      have "c \<noteq> CHR 0x5C"
        using plainish by auto
      then show ?thesis
        unfolding q by (simp add: unquoteChar_def)
    qed
  qed
qed

lemma quoteChar_append_inj:
  assumes e: "quoteChar c @ r = quoteChar c' @ r'"
  shows "c = c' \<and> r = r'"
proof -
  have "Some (c, r) = unquoteChar (quoteChar c @ r)"
    by (simp only: unquoteChar_quoteChar)
  also have "\<dots> = unquoteChar (quoteChar c' @ r')"
    by (simp only: e)
  also have "\<dots> = Some (c', r')"
    by (simp only: unquoteChar_quoteChar)
  finally show ?thesis by simp
qed

lemma quoteChar_shape:
  "(quoteChar c = [c] \<and> of_char c \<noteq> (34 :: nat)) \<or> (\<exists>xs. quoteChar c = CHR 0x5C # xs)"
  by (simp add: quoteChar_def Let_def)

lemma quoteChar_hd: "\<exists>x xs. quoteChar c = x # xs \<and> x \<noteq> CHR 0x22"
proof -
  from quoteChar_shape [of c] show ?thesis
  proof
    assume a: "quoteChar c = [c] \<and> of_char c \<noteq> (34 :: nat)"
    then have "c \<noteq> CHR 0x22" by auto
    with a show ?thesis by blast
  next
    assume "\<exists>xs. quoteChar c = CHR 0x5C # xs"
    then show ?thesis by auto
  qed
qed

lemma escaped_not_quote:
  "CHR 0x22 # r \<noteq> concat (map quoteChar (c # t)) @ r'"
proof -
  obtain x xs where q: "quoteChar c = x # xs" and x: "x \<noteq> CHR 0x22"
    using quoteChar_hd by blast
  have "concat (map quoteChar (c # t)) @ r' = x # (xs @ concat (map quoteChar t) @ r')"
    by (simp add: q)
  then show ?thesis using x by simp
qed

lemma escaped_append_inj:
  "concat (map quoteChar s) @ CHR 0x22 # r = concat (map quoteChar s') @ CHR 0x22 # r'
   \<Longrightarrow> s = s' \<and> r = r'"
proof (induction s arbitrary: s')
  case Nil
  show ?case
  proof (cases s')
    case Nil
    then show ?thesis using Nil.prems by simp
  next
    case (Cons c' t')
    have "CHR 0x22 # r = concat (map quoteChar (c' # t')) @ CHR 0x22 # r'"
      using Nil.prems unfolding Cons by simp
    then show ?thesis using escaped_not_quote by blast
  qed
next
  case (Cons c t)
  show ?case
  proof (cases s')
    case Nil
    have "CHR 0x22 # r' = concat (map quoteChar (c # t)) @ CHR 0x22 # r"
      using Cons.prems unfolding Nil by simp
    then show ?thesis using escaped_not_quote by blast
  next
    case c2: (Cons c' t')
    have "quoteChar c @ (concat (map quoteChar t) @ CHR 0x22 # r)
        = quoteChar c' @ (concat (map quoteChar t') @ CHR 0x22 # r')"
      using Cons.prems unfolding c2 by simp
    from quoteChar_append_inj [OF this]
    have cc: "c = c'" and rest: "concat (map quoteChar t) @ CHR 0x22 # r
        = concat (map quoteChar t') @ CHR 0x22 # r'"
      by blast+
    from Cons.IH [OF rest] cc show ?thesis unfolding c2 by simp
  qed
qed

lemma quote_append_inj:
  assumes "quote s @ r = quote s' @ r'"
  shows "s = s' \<and> r = r'"
proof -
  have "concat (map quoteChar s) @ CHR 0x22 # r = concat (map quoteChar s') @ CHR 0x22 # r'"
    using assms unfolding quote_def by simp
  then show ?thesis by (rule escaped_append_inj)
qed

lemma kindOf_digit: "c \<in> set ''0123456789'' \<Longrightarrow> kindOf c = 2"
  unfolding kindOf_def by auto

lemma showInt_hd: "\<exists>c cs. showInt i = c # cs \<and> kindOf c = 2"
proof (cases "i < 0")
  case True
  then have "showInt i = CHR ''-'' # decimal (nat (- i))"
    by (simp add: showInt_def)
  moreover have "kindOf (CHR ''-'') = 2"
    by (simp add: kindOf_def)
  ultimately show ?thesis by blast
next
  case False
  obtain c cs where "decimal (nat i) = c # cs" "c \<in> set ''0123456789''"
    using decimal_hd by blast
  then show ?thesis
    using False kindOf_digit by (auto simp: showInt_def)
qed

lemma stringify_hd: "\<exists>c cs. JSON_stringify a = c # cs \<and> kindOf c = ctor a"
proof (cases a)
  case JNull
  then show ?thesis by (simp add: kindOf_def)
next
  case (JBool b)
  then show ?thesis by (simp add: kindOf_def)
next
  case (JNum n)
  then show ?thesis using showInt_hd [of n] by simp
next
  case (JStr s)
  then show ?thesis by (simp add: kindOf_def quote_def)
next
  case (JArr xs)
  then show ?thesis by (simp add: kindOf_def)
next
  case (JObj kvs)
  then show ?thesis by (simp add: kindOf_def)
qed

lemma stringify_ctor:
  assumes "JSON_stringify a @ r = JSON_stringify b @ r'"
  shows "ctor a = ctor b"
proof -
  obtain c cs where a: "JSON_stringify a = c # cs" "kindOf c = ctor a"
    using stringify_hd by blast
  obtain d ds where b: "JSON_stringify b = d # ds" "kindOf d = ctor b"
    using stringify_hd by blast
  have "c = d" using assms a(1) b(1) by simp
  then show ?thesis using a(2) b(2) by simp
qed

lemma join_Cons: "join sep (x # xs) = x @ (if xs = [] then [] else sep @ join sep xs)"
  by (cases xs) simp_all

lemma follow_close: "cl \<in> set '']}'' \<Longrightarrow> follow (cl # r)"
  by (auto simp: follow_def)

lemma follow_comma: "follow (CHR '','' # r)"
  by (simp add: follow_def)

lemma join_inj:
  assumes inj: "\<And>x y r r'. x \<in> set xs \<Longrightarrow> f x @ r = f y @ r' \<Longrightarrow> follow r \<Longrightarrow> follow r'
                  \<Longrightarrow> x = y \<and> r = r'"
    and hd: "\<And>y. \<exists>c cs. f y = c # cs \<and> c \<noteq> cl"
    and cl: "cl \<in> set '']}''"
    and eq: "join '','' (map f xs) @ cl # r = join '','' (map f ys) @ cl # r'"
  shows "xs = ys \<and> r = r'"
  using inj eq
proof (induction xs arbitrary: ys)
  case Nil
  show ?case
  proof (cases ys)
    case Nil
    then show ?thesis using Nil.prems(2) by simp
  next
    case (Cons y ys')
    obtain c cs where "f y = c # cs" "c \<noteq> cl"
      using hd by blast
    then show ?thesis
      using Nil.prems(2) unfolding Cons by (simp add: join_Cons)
  qed
next
  case (Cons x xs')
  show ?case
  proof (cases ys)
    case Nil
    obtain c cs where "f x = c # cs" "c \<noteq> cl"
      using hd by blast
    then show ?thesis
      using Cons.prems(2) unfolding Nil by (simp add: join_Cons)
  next
    case ys: (Cons y ys')
    let ?tx = "(if xs' = [] then [] else '','' @ join '','' (map f xs')) @ cl # r"
    let ?ty = "(if ys' = [] then [] else '','' @ join '','' (map f ys')) @ cl # r'"
    have e: "f x @ ?tx = f y @ ?ty"
      using Cons.prems(2) unfolding ys by (simp add: join_Cons)
    have fx: "follow ?tx"
      using follow_close [OF cl] follow_comma by simp
    have fy: "follow ?ty"
      using follow_close [OF cl] follow_comma by simp
    have xy: "x = y" and t: "?tx = ?ty"
      using Cons.prems(1) [OF _ e fx fy] by simp_all
    have ne: "cl \<noteq> CHR '',''"
      using cl by auto
    show ?thesis
    proof (cases "xs' = []")
      case True
      then have "ys' = []"
        using t ne by (auto split: if_splits)
      then show ?thesis
        using True t xy ys by simp
    next
      case False
      then have yne: "ys' \<noteq> []"
        using t ne by (auto split: if_splits)
      then have "join '','' (map f xs') @ cl # r = join '','' (map f ys') @ cl # r'"
        using False t by simp
      moreover have "\<And>x y r r'. x \<in> set xs' \<Longrightarrow> f x @ r = f y @ r' \<Longrightarrow> follow r \<Longrightarrow> follow r'
                  \<Longrightarrow> x = y \<and> r = r'"
      proof -
        fix x0 y0 r0 r0'
        assume "x0 \<in> set xs'" and e0: "f x0 @ r0 = f y0 @ r0'" and "follow r0" and "follow r0'"
        then have "x0 \<in> set (x # xs')" by simp
        from Cons.prems(1) [OF this e0 \<open>follow r0\<close> \<open>follow r0'\<close>]
        show "x0 = y0 \<and> r0 = r0'" .
      qed
      ultimately have "xs' = ys' \<and> r = r'"
        using Cons.IH by blast
      then show ?thesis
        using xy ys by simp
    qed
  qed
qed

lemma stringify_append_inj:
  "JSON_stringify a @ r = JSON_stringify b @ r' \<Longrightarrow> follow r \<Longrightarrow> follow r' \<Longrightarrow> a = b \<and> r = r'"
proof (induction a arbitrary: b r r')
  case JNull
  from stringify_ctor [OF JNull.prems(1)] have "b = JNull" by (cases b) simp_all
  then show ?case using JNull.prems(1) by simp
next
  case (JBool x)
  from stringify_ctor [OF JBool.prems(1)] obtain y where b: "b = JBool y" by (cases b) simp_all
  show ?case using JBool.prems(1) unfolding b by (auto split: if_splits)
next
  case (JNum n)
  from stringify_ctor [OF JNum.prems(1)] obtain m where b: "b = JNum m" by (cases b) simp_all
  have "showInt n @ r = showInt m @ r'"
    using JNum.prems(1) unfolding b by simp
  from showInt_append_inj [OF this JNum.prems(2,3)] show ?case unfolding b by simp
next
  case (JStr s)
  from stringify_ctor [OF JStr.prems(1)] obtain s' where b: "b = JStr s'" by (cases b) simp_all
  have "quote s @ r = quote s' @ r'"
    using JStr.prems(1) unfolding b by simp
  from quote_append_inj [OF this] show ?case unfolding b by simp
next
  case (JArr xs)
  from stringify_ctor [OF JArr.prems(1)] obtain ys where b: "b = JArr ys" by (cases b) simp_all
  have eq: "join '','' (map JSON_stringify xs) @ CHR '']'' # r
      = join '','' (map JSON_stringify ys) @ CHR '']'' # r'"
    using JArr.prems(1) unfolding b by simp
  have hd: "\<And>y. \<exists>c cs. JSON_stringify y = c # cs \<and> c \<noteq> CHR '']''"
  proof -
    fix y
    obtain c cs where c: "JSON_stringify y = c # cs" "kindOf c = ctor y"
      using stringify_hd by blast
    have "ctor y < 6" by (cases y) simp_all
    moreover have "kindOf (CHR '']'') = 6" by (simp add: kindOf_def)
    ultimately have "c \<noteq> CHR '']''" using c(2) by auto
    with c(1) show "\<exists>c cs. JSON_stringify y = c # cs \<and> c \<noteq> CHR '']''" by blast
  qed
  have "xs = ys \<and> r = r'"
    by (rule join_inj [where f = JSON_stringify and cl = "CHR '']''", OF _ hd _ eq])
       (use JArr.IH in auto)
  then show ?case unfolding b by simp
next
  case (JObj kvs)
  from stringify_ctor [OF JObj.prems(1)] obtain kvs' where b: "b = JObj kvs'" by (cases b) simp_all
  let ?f = "\<lambda>kv. quote (fst kv) @ '':'' @ JSON_stringify (snd kv)"
  have eq: "join '','' (map ?f kvs) @ CHR ''}'' # r = join '','' (map ?f kvs') @ CHR ''}'' # r'"
    using JObj.prems(1) unfolding b by simp
  have hd: "\<And>y. \<exists>c cs. ?f y = c # cs \<and> c \<noteq> CHR ''}''"
    by (simp add: quote_def)
  have inj: "\<And>x y r r'. x \<in> set kvs \<Longrightarrow> ?f x @ r = ?f y @ r' \<Longrightarrow> follow r \<Longrightarrow> follow r'
                  \<Longrightarrow> x = y \<and> r = r'"
  proof -
    fix x y :: "string \<times> json" and r r'
    assume x: "x \<in> set kvs" and e: "?f x @ r = ?f y @ r'" and f: "follow r" "follow r'"
    have "quote (fst x) @ ('':'' @ JSON_stringify (snd x) @ r)
        = quote (fst y) @ ('':'' @ JSON_stringify (snd y) @ r')"
      using e by simp
    from quote_append_inj [OF this]
    have k: "fst x = fst y" and v: "JSON_stringify (snd x) @ r = JSON_stringify (snd y) @ r'"
      by simp_all
    have "snd x \<in> Basic_BNFs.snds x"
      by (cases x) simp
    from JObj.IH [OF x this v f] k show "x = y \<and> r = r'"
      by (simp add: prod_eq_iff)
  qed
  have "kvs = kvs' \<and> r = r'"
    by (rule join_inj [where f = ?f and cl = "CHR ''}''", OF inj hd _ eq]) simp_all
  then show ?case unfolding b by simp
qed

lemma stringify_inj: "JSON_stringify a = JSON_stringify b \<Longrightarrow> a = b"
  using stringify_append_inj [of a "[]" b "[]"] by (simp add: follow_def)

lemma keyData_query_inj: "keyData q' ps = keyData q ps \<Longrightarrow> q' = q"
  by (simp add: keyData_def)

lemma keyData_absent: "keyData q None \<noteq> keyData q (Some xs)"
  by (simp add: keyData_def)

lemma keyData_present_inj:
  assumes "keyData q (Some xs) = keyData q (Some ys)"
  shows "xs = ys"
proof -
  have "JSON_stringify (JArr xs) = JSON_stringify (JArr ys)"
    using assms unfolding keyData_def by (simp only: same_append_eq option.case)
  from stringify_inj [OF this] show ?thesis by simp
qed

lemma keyData_params_inj: "keyData q ps' = keyData q ps \<Longrightarrow> ps' = ps"
proof (cases ps)
  case None
  assume e: "keyData q ps' = keyData q ps"
  show ?thesis
  proof (cases ps')
    case (Some ys)
    with e None show ?thesis using keyData_absent [of q ys] by simp
  qed (simp add: None)
next
  case (Some xs)
  assume e: "keyData q ps' = keyData q ps"
  show ?thesis
  proof (cases ps')
    case None
    with e Some show ?thesis using keyData_absent [of q xs] by simp
  next
    case s: (Some ys)
    with e Some show ?thesis using keyData_present_inj [of q ys xs] by simp
  qed
qed

subsection \<open>The cache\<close>

lemma hex_digit_in: "hex_digit n \<in> set ''0123456789abcdef''"
proof -
  have "unat (n AND 15) \<le> unat (15 :: 8 word)"
    by (rule word_and_le1 [THEN word_le_nat_alt [THEN iffD1]])
  then have "unat (n AND 15) < length ''0123456789abcdef''"
    by simp
  then show ?thesis
    unfolding hex_digit_def by (rule nth_mem)
qed

lemma hex_chars: "set (hex bs) \<subseteq> set ''0123456789abcdef''"
  unfolding hex_def using hex_digit_in by auto

lemma md5_hex_chars: "set (md5_hex s) \<subseteq> set ''0123456789abcdef''"
  unfolding md5_hex_def by (rule hex_chars)

lemma startsWith_subset: "startsWith s p \<Longrightarrow> set p \<subseteq> set s"
  unfolding startsWith_def by (metis set_take_subset)

lemma str_includes_subset: "str_includes k p \<Longrightarrow> set p \<subseteq> set k"
proof (induction k)
  case Nil
  then show ?case by simp
next
  case (Cons c cs)
  then show ?case
    using startsWith_subset [of "c # cs" p] by auto
qed

lemma key_not_includes:
  assumes "c \<in> set p" and "c \<notin> set ''0123456789abcdef''"
  shows "\<not> str_includes (generateKey q ps) p"
proof
  assume "str_includes (generateKey q ps) p"
  then have "set p \<subseteq> set (generateKey q ps)"
    by (rule str_includes_subset)
  also have "\<dots> \<subseteq> set ''0123456789abcdef''"
    unfolding generateKey_def by (rule md5_hex_chars)
  finally show False using assms by blast
qed

lemma set_entry_new:
  "0 < m \<Longrightarrow> set_entry t (newQueryCache m d) q v ps None
     = \<lparr>cache = [(generateKey q ps, \<lparr>data = v, timestamp = t, ttl = d\<rparr>)], maxSize = m,
        defaultTTL = d\<rparr>"
  by (simp add: set_entry_def newQueryCache_def Let_def)

lemma get_after_set_same:
  assumes "generateKey q' ps' = generateKey q ps"
  shows "fst (get t' (set_entry t c q v ps ttl_arg) q' ps')
       = (if t' - t > (case ttl_arg of None \<Rightarrow> defaultTTL c
                        | Some x \<Rightarrow> if x = 0 then defaultTTL c else x)
          then None else Some v)"
  using assms
  by (simp add: get_def set_entry_def Let_def update_conv' isExpired_def)

lemma evictOldest_cases:
  "evictOldest t c = c \<or> (\<exists>k. evictOldest t c = c\<lparr>cache := AList.delete k (cache c)\<rparr>)"
  unfolding evictOldest_def by (auto split: prod.splits)

lemma evictOldest_map_of:
  "map_of (cache (evictOldest t c)) k = map_of (cache c) k
   \<or> map_of (cache (evictOldest t c)) k = None"
  using evictOldest_cases [of t c] by (auto simp: delete_conv' split: if_splits)

lemma get_after_set_other:
  assumes "generateKey q' ps' \<noteq> generateKey q ps"
  shows "fst (get t' (set_entry t c q v ps ttl_arg) q' ps') = None
       \<or> fst (get t' (set_entry t c q v ps ttl_arg) q' ps') = fst (get t' c q' ps')"
proof -
  let ?k' = "generateKey q' ps'"
  have m: "map_of (cache (set_entry t c q v ps ttl_arg)) ?k' = map_of (cache c) ?k'
         \<or> map_of (cache (set_entry t c q v ps ttl_arg)) ?k' = None"
    using assms evictOldest_map_of [of t c ?k']
    by (auto simp: set_entry_def Let_def update_conv')
  have g: "\<And>d. fst (get t' d q' ps')
        = (case map_of (cache d) ?k' of None \<Rightarrow> None
           | Some e \<Rightarrow> if isExpired t' e then None else Some (data e))"
    by (simp add: get_def Let_def split: option.splits)
  from m show ?thesis
    unfolding g by auto
qed

lemma get_hit_fresh:
  "fst (get t c q ps) = Some v
   \<Longrightarrow> \<exists>e. map_of (cache c) (generateKey q ps) = Some e \<and> data e = v
           \<and> \<not> (t - timestamp e > ttl e)"
  by (auto simp: get_def Let_def isExpired_def split: option.splits if_splits)

lemma key_select1: "generateKey ''SELECT 1'' None = ''b1698e52a0f16203489454196a0c6307''"
  by code_simp

lemma key_select2: "generateKey ''SELECT 2'' None = ''fc1c7a0bdce312b20bc3780dd6d41aaa''"
  by code_simp

lemma key_products:
  "generateKey ''SELECT * FROM products'' None = ''ff5b0a6a018c4776b09f076275fdd727''"
  by code_simp

lemma key_concat: "generateKey ''SELECT ?'' (Some [JNum 1]) = generateKey ''SELECT ?[1]'' None"
  by (simp add: generateKey_def keyData_def showInt_def decimal.simps)

lemma key_param_one:
  "generateKey ''SELECT ?'' (Some [JNum 1]) = ''fe1d5611243ae96c0fb9b030754ef43f''"
  by code_simp

lemma key_param_two:
  "generateKey ''SELECT ?'' (Some [JNum 2]) = ''7e3b1fc5547c42e07ba8da5b0028b950''"
  by code_simp

text \<open>
  Two texts of 72 characters that differ in one character and have the same MD5 digest
  (an MD5 collision in printable characters).
\<close>

lemma key_text_a:
  "generateKey ''TEXTCOLLBYfGiJUETHQ4hAcKSMd5zYpgqf1YRDhkmxHkhPWptrkoyz28wnI9V0aHeAuaKnak'' None
     = ''faad49866e9498fc1719f5289e7a0269''"
  by code_simp

lemma key_text_b:
  "generateKey ''TEXTCOLLBYfGiJUETHQ4hEcKSMd5zYpgqf1YRDhkmxHkhPWptrkoyz28wnI9V0aHeAuaKnak'' None
     = ''faad49866e9498fc1719f5289e7a0269''"
  by code_simp

text \<open>The RFC 1321 test suite, and the shape of a key.\<close>

lemma md5_test_empty: "md5_hex [] = ''d41d8cd98f00b204e9800998ecf8427e''"
  by code_simp

lemma md5_test_abc: "md5_hex ''abc'' = ''900150983cd24fb0d6963f7d28e17f72''"
  by code_simp

lemma length_md5: "length (md5 bs) = 16"
  by (simp add: md5_def bytes_of_u32_def split: prod.splits)

lemma length_hex: "length (hex bs) = 2 * length bs"
  by (induction bs) (simp_all add: hex_def)

lemma length_generateKey: "length (generateKey q ps) = 32"
  by (simp add: generateKey_def md5_hex_def length_hex length_md5)

lemma generateKey_nonempty: "generateKey q ps \<noteq> []"
  using length_generateKey [of q ps] by auto

text \<open>
  Eviction: when some entry is older than the clock reading, \<open>evictOldest\<close> removes
  one entry of least timestamp, and then an insertion keeps the size within \<open>maxSize\<close>.
\<close>

lemma oldestStep_pair:
  "oldestStep (k0, t0) (kx, ex) = (if timestamp ex < t0 then (kx, timestamp ex) else (k0, t0))"
  by (simp add: oldestStep_def)

lemma update_present_length:
  "k \<in> fst ` set xs \<Longrightarrow> length (AList.update k v xs) = length xs"
  by (induction xs) auto

lemma update_absent_length:
  "k \<notin> fst ` set xs \<Longrightarrow> length (AList.update k v xs) = Suc (length xs)"
  by (induction xs) auto

lemma foldl_oldestStep:
  "foldl oldestStep (k0, t0) xs = (k, t) \<Longrightarrow>
     t \<le> t0 \<and> (\<forall>ke\<in>set xs. t \<le> timestamp (snd ke))
     \<and> ((k = k0 \<and> t = t0) \<or> (\<exists>e. (k, e) \<in> set xs \<and> timestamp e = t \<and> t < t0))"
proof (induction xs arbitrary: k0 t0)
  case Nil
  then show ?case by simp
next
  case (Cons x xs)
  obtain kx ex where x: "x = (kx, ex)" by (cases x)
  show ?case
  proof (cases "timestamp ex < t0")
    case True
    then have "foldl oldestStep (kx, timestamp ex) xs = (k, t)"
      using Cons.prems x by (simp add: oldestStep_pair)
    from Cons.IH [OF this] True x show ?thesis by auto
  next
    case False
    then have "foldl oldestStep (k0, t0) xs = (k, t)"
      using Cons.prems x by (simp add: oldestStep_pair)
    from Cons.IH [OF this] False x show ?thesis by auto
  qed
qed

lemma length_delete:
  "distinct (map fst xs) \<Longrightarrow> k \<in> fst ` set xs \<Longrightarrow> Suc (length (AList.delete k xs)) = length xs"
proof (induction xs)
  case Nil
  then show ?case by simp
next
  case (Cons x xs)
  show ?case
  proof (cases "fst x = k")
    case True
    then have "k \<notin> fst ` set xs"
      using Cons.prems(1) by auto
    then have "AList.delete k xs = xs"
      by (rule delete_id)
    moreover have "AList.delete k (x # xs) = AList.delete k xs"
      using True by (cases x) (simp add: AList.delete_eq)
    ultimately show ?thesis
      by simp
  next
    case False
    then show ?thesis
      using Cons by (auto simp: AList.delete_eq)
  qed
qed

lemma evictOldest_removes_oldest:
  assumes ok: "keys_ok c" and older: "\<exists>ke\<in>set (cache c). timestamp (snd ke) < t0"
  shows "\<exists>k e. (k, e) \<in> set (cache c)
           \<and> (\<forall>ke\<in>set (cache c). timestamp e \<le> timestamp (snd ke))
           \<and> cache (evictOldest t0 c) = AList.delete k (cache c)
           \<and> Suc (length (cache (evictOldest t0 c))) = length (cache c)"
proof -
  obtain k t where f: "foldl oldestStep ([], t0) (cache c) = (k, t)"
    by (cases "foldl oldestStep ([], t0) (cache c)")
  from foldl_oldestStep [OF f]
  have le: "\<forall>ke\<in>set (cache c). t \<le> timestamp (snd ke)"
    and alt: "(k = [] \<and> t = t0) \<or> (\<exists>e. (k, e) \<in> set (cache c) \<and> timestamp e = t \<and> t < t0)"
    by blast+
  from older le have "t < t0" by fastforce
  with alt obtain e where e: "(k, e) \<in> set (cache c)" "timestamp e = t"
    by blast
  have kne: "k \<noteq> []"
    using ok e(1) unfolding keys_ok_def by force
  have ne: "cache c \<noteq> []"
    using e(1) by auto
  have ev: "cache (evictOldest t0 c) = AList.delete k (cache c)"
    using f kne ne by (simp add: evictOldest_def)
  have "distinct (map fst (cache c))"
    using ok by (simp add: keys_ok_def)
  moreover have "k \<in> fst ` set (cache c)"
    using e(1) by force
  ultimately have "Suc (length (AList.delete k (cache c))) = length (cache c)"
    by (rule length_delete)
  then show ?thesis
    using e le ev by auto
qed

lemma set_entry_keeps_bound:
  assumes ok: "keys_ok c" and older: "\<forall>ke\<in>set (cache c). timestamp (snd ke) < t0"
    and bound: "int (length (cache c)) \<le> maxSize c" and pos: "1 \<le> maxSize c"
  shows "int (length (cache (set_entry t0 c q v ps ttl_arg))) \<le> maxSize c"
proof -
  let ?k = "generateKey q ps"
  let ?e = "\<lparr>data = v, timestamp = t0,
             ttl = (case ttl_arg of None \<Rightarrow> defaultTTL c
                    | Some x \<Rightarrow> if x = 0 then defaultTTL c else x)\<rparr>"
  have len_upd: "\<And>xs. length (AList.update ?k ?e xs)
      = (if ?k \<in> fst ` set xs then length xs else Suc (length xs))"
    by (simp add: update_present_length update_absent_length)
  show ?thesis
  proof (cases "maxSize c \<le> int (length (cache c)) \<and> map_of (cache c) ?k = None")
    case True
    then have full: "int (length (cache c)) = maxSize c"
      using bound by simp
    then have "cache c \<noteq> []"
      using pos by auto
    then have "\<exists>ke\<in>set (cache c). timestamp (snd ke) < t0"
      using older by (cases "cache c") auto
    from evictOldest_removes_oldest [OF ok this]
    have "Suc (length (cache (evictOldest t0 c))) = length (cache c)"
      by blast
    moreover have "cache (set_entry t0 c q v ps ttl_arg)
        = AList.update ?k ?e (cache (evictOldest t0 c))"
      using True by (simp add: set_entry_def Let_def evictOldest_def split: prod.splits)
    ultimately show ?thesis
      using full len_upd [of "cache (evictOldest t0 c)"] by (auto split: if_splits)
  next
    case False
    then have c: "cache (set_entry t0 c q v ps ttl_arg) = AList.update ?k ?e (cache c)"
      by (auto simp: set_entry_def Let_def)
    from False consider "int (length (cache c)) < maxSize c" | "map_of (cache c) ?k \<noteq> None"
      by fastforce
    then show ?thesis
    proof cases
      case 1
      then show ?thesis
        unfolding c using len_upd [of "cache c"] by (auto split: if_splits)
    next
      case 2
      then have "?k \<in> fst ` set (cache c)"
        by (simp add: map_of_eq_None_iff)
      then show ?thesis
        unfolding c using len_upd [of "cache c"] bound by simp
    qed
  qed
qed

lemma keys_ok_new: "keys_ok (newQueryCache m d)"
  by (simp add: keys_ok_def newQueryCache_def)

lemma keys_ok_delete:
  assumes "keys_ok c"
  shows "keys_ok (c\<lparr>cache := AList.delete k (cache c)\<rparr>)"
proof -
  have d: "distinct (map fst (AList.delete k (cache c)))"
    using assms by (simp add: keys_ok_def distinct_delete)
  have "set (AList.delete k (cache c)) \<subseteq> set (cache c)"
    by (auto simp: AList.delete_eq)
  then have "fst ` set (AList.delete k (cache c)) \<subseteq> fst ` set (cache c)"
    by (rule image_mono)
  then have "[] \<notin> fst ` set (AList.delete k (cache c))"
    using assms unfolding keys_ok_def by blast
  with d show ?thesis
    by (simp add: keys_ok_def)
qed

lemma keys_ok_evictOldest:
  assumes "keys_ok c"
  shows "keys_ok (evictOldest t0 c)"
proof -
  from evictOldest_cases [of t0 c]
  consider "evictOldest t0 c = c"
    | k where "evictOldest t0 c = c\<lparr>cache := AList.delete k (cache c)\<rparr>"
    by blast
  then show ?thesis
  proof cases
    case 1
    then show ?thesis using assms by simp
  next
    case 2
    then show ?thesis using keys_ok_delete [OF assms, of k] by simp
  qed
qed

lemma keys_ok_update:
  assumes "keys_ok c"
  shows "keys_ok (c\<lparr>cache := AList.update (generateKey q ps) e (cache c)\<rparr>)"
proof -
  have "distinct (map fst (AList.update (generateKey q ps) e (cache c)))"
    using assms by (simp add: keys_ok_def distinct_update)
  moreover have "[] \<notin> fst ` set (AList.update (generateKey q ps) e (cache c))"
    using assms generateKey_nonempty [of q ps]
    unfolding keys_ok_def dom_update by auto
  ultimately show ?thesis
    by (simp add: keys_ok_def)
qed

lemma keys_ok_set_entry:
  assumes "keys_ok c"
  shows "keys_ok (set_entry t0 c q v ps ttl_arg)"
  using keys_ok_update [OF assms] keys_ok_update [OF keys_ok_evictOldest [OF assms]]
  by (simp add: set_entry_def Let_def)

subsection \<open>The connection and the request handlers\<close>

lemma initializeMySQLClient_ok:
  assumes "connectable (configWatcher s) w"
  shows "initializeMySQLClient s w
       = (None,
          s\<lparr>mysqlClient := Some \<lparr>connection = Some (nextHandle w),
                                  config = connectionConfigOf (configWatcher s)\<rparr>\<rparr>,
          w\<lparr>openConns := openConns w @ [nextHandle w], nextHandle := Suc (nextHandle w),
            events := events w @ [Connect (connectionConfigOf (configWatcher s)) (Some (nextHandle w))]\<rparr>)"
  using assms
  by (auto simp: connectable_def initializeMySQLClient_def Let_def connectionConfigOf_def
        newMySQLClient_def connect_def createConnection_def)

lemma initializeMySQLClient_fails:
  assumes "\<not> connectable (configWatcher s) w"
  shows "\<exists>e s' w'. initializeMySQLClient s w = (Some e, s', w')
           \<and> queryCache s' = queryCache s
           \<and> openConns w' = openConns w
           \<and> (mysqlClient s' = mysqlClient s
                \<or> mysqlClient s' = Some \<lparr>connection = None,
                                           config = connectionConfigOf (configWatcher s)\<rparr>)"
  using assms
  by (auto simp: connectable_def initializeMySQLClient_def Let_def connectionConfigOf_def
        newMySQLClient_def connect_def createConnection_def split: option.splits)

lemma startsWith_disjoint:
  assumes "startsWith t p" and "take (length p) p' \<noteq> take (length p') p"
  shows "\<not> startsWith t p'"
proof
  assume "startsWith t p'"
  then have "take (length p) p' = take (length p) (take (length p') t)"
    unfolding startsWith_def by simp
  also have "\<dots> = take (length p') (take (length p) t)"
    by (simp add: min.commute)
  also have "\<dots> = take (length p') p"
    using assms(1) unfolding startsWith_def by simp
  finally show False using assms(2) by simp
qed

lemma mutating_not_cached:
  assumes "parseQueryPermission q \<in> {INSERT, UPDATE, DELETE}"
  shows "\<not> shouldCache q"
proof -
  let ?t = "toLowerCase (trim q)"
  have sel: "\<not> startsWith ?t ''select''"
    using assms unfolding parseQueryPermission_def Let_def by (auto split: if_splits)
  have "startsWith ?t ''insert'' \<or> startsWith ?t ''update'' \<or> startsWith ?t ''delete''"
    using assms unfolding parseQueryPermission_def Let_def by (auto split: if_splits)
  then have "\<not> startsWith ?t ''show'' \<and> \<not> startsWith ?t ''describe'' \<and> \<not> startsWith ?t ''desc''"
  proof (elim disjE)
    assume a: "startsWith ?t ''insert''"
    show ?thesis
      using startsWith_disjoint [OF a, of "''show''"] startsWith_disjoint [OF a, of "''describe''"]
        startsWith_disjoint [OF a, of "''desc''"] by simp
  next
    assume a: "startsWith ?t ''update''"
    show ?thesis
      using startsWith_disjoint [OF a, of "''show''"] startsWith_disjoint [OF a, of "''describe''"]
        startsWith_disjoint [OF a, of "''desc''"] by simp
  next
    assume a: "startsWith ?t ''delete''"
    show ?thesis
      using startsWith_disjoint [OF a, of "''show''"] startsWith_disjoint [OF a, of "''describe''"]
        startsWith_disjoint [OF a, of "''desc''"] by simp
  qed
  with sel show ?thesis
    unfolding shouldCache_def Let_def by simp
qed

lemma mysql_query_uncached:
  "\<not> shouldCache q \<Longrightarrow> queryCache (fst (snd (mysql_query cl sid q ps out s w))) = queryCache s"
  unfolding mysql_query_def
  by (auto split: option.splits prod.splits sum.splits)

lemma get_other_key:
  "k \<noteq> generateKey q ps \<Longrightarrow> map_of (cache (snd (get t c q ps))) k = map_of (cache c) k"
  by (auto simp: get_def Let_def delete_conv' split: option.splits)

lemma get_size: "length (cache (snd (get t c q ps))) \<le> length (cache c)"
  by (auto simp: get_def Let_def AList.delete_eq split: option.splits)

lemma get_maxSize: "maxSize (snd (get t c q ps)) = maxSize c"
  by (auto simp: get_def Let_def split: option.splits)

lemma set_entry_other_key:
  assumes "k \<noteq> generateKey q ps"
  shows "map_of (cache (set_entry t c q v ps ttl_arg)) k = map_of (cache c) k
       \<or> (map_of (cache (set_entry t c q v ps ttl_arg)) k = None
           \<and> maxSize c \<le> int (length (cache c)))"
  using assms evictOldest_map_of [of t c k]
  by (auto simp: set_entry_def Let_def update_conv')

lemma mysql_query_cache_cases:
  "queryCache (fst (snd (mysql_query cl sid q ps out s w))) = queryCache s
   \<or> queryCache (fst (snd (mysql_query cl sid q ps out s w)))
       = snd (get (now out) (queryCache s) q ps)
   \<or> (\<exists>r. queryCache (fst (snd (mysql_query cl sid q ps out s w)))
            = set_entry (later out) (snd (get (now out) (queryCache s) q ps)) q r ps None)"
  unfolding mysql_query_def
  by (auto split: option.splits prod.splits sum.splits)

lemma mysql_query_other_key:
  assumes k: "k \<noteq> generateKey q ps"
  shows "map_of (cache (queryCache (fst (snd (mysql_query cl sid q ps out s w))))) k
           = map_of (cache (queryCache s)) k
       \<or> (map_of (cache (queryCache (fst (snd (mysql_query cl sid q ps out s w))))) k = None
           \<and> maxSize (queryCache s) \<le> int (length (cache (queryCache s))))"
proof -
  let ?qc = "queryCache s"
  let ?qc1 = "snd (get (now out) ?qc q ps)"
  let ?qc' = "queryCache (fst (snd (mysql_query cl sid q ps out s w)))"
  have g: "map_of (cache ?qc1) k = map_of (cache ?qc) k"
    using k by (rule get_other_key)
  have sz: "maxSize ?qc1 \<le> int (length (cache ?qc1)) \<Longrightarrow> maxSize ?qc \<le> int (length (cache ?qc))"
    using get_size [of "now out" ?qc q ps] get_maxSize [of "now out" ?qc q ps] by simp
  from mysql_query_cache_cases [of cl sid q ps out s w]
  consider "?qc' = ?qc" | "?qc' = ?qc1"
    | r where "?qc' = set_entry (later out) ?qc1 q r ps None"
    by blast
  then show ?thesis
  proof cases
    case 1
    then show ?thesis by simp
  next
    case 2
    then show ?thesis using g by simp
  next
    case 3
    then show ?thesis
      using set_entry_other_key [OF k, of "later out" ?qc1 r None] g sz by auto
  qed
qed

lemma callTool_other_tools:
  assumes "\<not> isRawQuery req"
  shows "queryCache (fst (snd (callTool req out s w)))
       = (case (invalidatedTable req, fst (callTool req out s w)) of
            (Some table, Inr r) \<Rightarrow> invalidateTable table (queryCache s)
          | _ \<Rightarrow> queryCache s)"
proof (cases "mysqlClient s")
  case None
  then show ?thesis
    by (simp add: callTool_def split: option.splits sum.splits)
next
  case (Some cl)
  show ?thesis
  proof (cases req)
    case (Mysql_auth uname pw)
    then show ?thesis using Some
      by (simp add: callTool_def invalidatedTable_def failed_def split: prod.splits)
  next
    case (Mysql_query sid q ps)
    then show ?thesis using assms by (simp add: isRawQuery_def)
  next
    case (Mysql_list_databases sid)
    then show ?thesis using Some
      by (auto simp: callTool_def invalidatedTable_def failed_def finish_def
            split: option.splits prod.splits sum.splits)
  next
    case (Mysql_list_tables sid db)
    then show ?thesis using Some
      by (auto simp: callTool_def invalidatedTable_def failed_def finish_def
            split: option.splits prod.splits sum.splits)
  next
    case (Mysql_describe_table sid table db)
    then show ?thesis using Some
      by (auto simp: callTool_def invalidatedTable_def failed_def finish_def
            split: option.splits prod.splits sum.splits)
  next
    case (Mysql_get_table_data sid table limit db)
    then show ?thesis using Some
      by (auto simp: callTool_def invalidatedTable_def failed_def finish_def Let_def
            split: option.splits prod.splits sum.splits)
  next
    case (Mysql_insert sid table d db)
    then show ?thesis using Some
      by (auto simp: callTool_def invalidatedTable_def failed_def finishInvalidating_def
            split: option.splits prod.splits sum.splits)
  next
    case (Mysql_update sid table d wh db)
    then show ?thesis using Some
      by (auto simp: callTool_def invalidatedTable_def failed_def finishInvalidating_def
            split: option.splits prod.splits sum.splits)
  next
    case (Mysql_delete sid table wh db)
    then show ?thesis using Some
      by (auto simp: callTool_def invalidatedTable_def failed_def finishInvalidating_def
            split: option.splits prod.splits sum.splits)
  next
    case (Unknown_tool name)
    then show ?thesis using Some
      by (simp add: callTool_def invalidatedTable_def failed_def)
  qed
qed

section \<open>Claims\<close>

text \<open>
  Claim C1 says that \<open>invalidateTable t\<close> removes exactly the entries whose query text
  contains the lower-cased table name. The code tests the stored key, which is the
  hexadecimal MD5 digest, not the query text. At these two inputs it does the opposite of
  the claim: after \<open>invalidateTable ''users''\<close> the cached \<^verbatim>\<open>SELECT * FROM users\<close> is
  still a hit (no digest contains the letter u), and after \<open>invalidateTable ''b''\<close> the
  cached \<^verbatim>\<open>SELECT * FROM products\<close>, whose text has no b, is gone (its digest
  \<^verbatim>\<open>ff5b0a6a...\<close> has one).
\<close>

theorem invalidateTable_tests_digest:
  "fst (get 2000 (invalidateTable ''users''
          (set_entry 1000 (newQueryCache 1000 300000) ''SELECT * FROM users'' rows1 None None))
        ''SELECT * FROM users'' None) = Some rows1
   \<and> fst (get 2000 (invalidateTable ''b''
          (set_entry 1000 (newQueryCache 1000 300000) ''SELECT * FROM products'' rows1 None None))
        ''SELECT * FROM products'' None) = None"
proof
  have u: "\<not> str_includes (generateKey ''SELECT * FROM users'' None) ''users''"
    by (rule key_not_includes [of "CHR ''u''"]) simp_all
  show "fst (get 2000 (invalidateTable ''users''
          (set_entry 1000 (newQueryCache 1000 300000) ''SELECT * FROM users'' rows1 None None))
        ''SELECT * FROM users'' None) = Some rows1"
    using u
    by (simp add: set_entry_new invalidateTable_def invalidate_def toLowerCase_def lowerChar_def
          get_def isExpired_def)
next
  show "fst (get 2000 (invalidateTable ''b''
          (set_entry 1000 (newQueryCache 1000 300000) ''SELECT * FROM products'' rows1 None None))
        ''SELECT * FROM products'' None) = None"
    by (simp add: set_entry_new invalidateTable_def invalidate_def toLowerCase_def lowerChar_def
          get_def key_products startsWith_def)
qed

text \<open>
  Claim C2, as stated: the new connection is attempted first, and when the attempt fails
  the previous connection stays live. The server is connected under \<open>configA\<close> with the
  handle 0 and the file changes to \<open>configB\<close>, which the data store refuses. The log shows
  that the handle 0 is ended before the connection attempt; afterwards no connection is
  open, the client has none, and a query fails.
\<close>

theorem onChange_counterexample:
  "configFileChanged configB server0 world0
     = (server0\<lparr>configWatcher := configB,
                mysqlClient := Some \<lparr>connection = None, config = connectionConfigOf configB\<rparr>\<rparr>,
        world0\<lparr>openConns := [],
               events := events world0 @ [End 0, Connect (connectionConfigOf configB) None]\<rparr>)
   \<and> query \<lparr>connection = None, config = connectionConfigOf configB\<rparr> ''SELECT 1'' None
        (world0\<lparr>openConns := [],
               events := events world0 @ [End 0, Connect (connectionConfigOf configB) None]\<rparr>)
     = (Inl (Error ''Not connected to database''),
        world0\<lparr>openConns := [],
               events := events world0 @ [End 0, Connect (connectionConfigOf configB) None]\<rparr>)"
  by (simp add: configFileChanged_def onChange_def initializeMySQLClient_def Let_def
        server0_def world0_def configA_def configB_def connectionConfigOf_def disconnect_def
        end_connection_def newMySQLClient_def connect_def createConnection_def query_def)

text \<open>
  Claim C2, amended. On a configuration change the handler first closes the previous
  connection and then attempts to connect under the new configuration. The previous
  handle is closed in every case, and its end is the first driver call. If the attempt
  succeeds, the client holds the new handle and the cache is empty. If it fails (the
  data store refuses, or user, password or port are missing), the client has no
  connection, every query fails with \<^verbatim>\<open>Not connected to database\<close>, and the cache is
  untouched.
\<close>

theorem onChange_disconnects_first:
  assumes cl: "mysqlClient s = Some cl" and h: "connection cl = Some h"
    and fresh: "h < nextHandle w"
    and res: "onChange s w = (s', w')"
  shows "h \<notin> set (openConns w')
       \<and> (\<exists>rest. events w' = events w @ End h # rest)
       \<and> (if connectable (configWatcher s) w
           then mysqlClient s' = Some \<lparr>connection = Some (nextHandle w),
                                        config = connectionConfigOf (configWatcher s)\<rparr>
                \<and> openConns w' = removeAll h (openConns w) @ [nextHandle w]
                \<and> cache (queryCache s') = []
           else (\<exists>cl'. mysqlClient s' = Some cl' \<and> connection cl' = None
                       \<and> query cl' sql ps w' = (Inl (Error ''Not connected to database''), w'))
                \<and> openConns w' = removeAll h (openConns w)
                \<and> queryCache s' = queryCache s)"
proof -
  let ?s1 = "s\<lparr>mysqlClient := Some (cl\<lparr>connection := None\<rparr>)\<rparr>"
  let ?w1 = "end_connection h w"
  have step: "onChange s w =
      (case initializeMySQLClient ?s1 ?w1 of
         (Some e, s2, w2) \<Rightarrow> (s2, w2)
       | (None, s2, w2) \<Rightarrow> (s2\<lparr>queryCache := invalidate None (queryCache s2)\<rparr>, w2))"
    using cl h by (simp add: onChange_def disconnect_def)
  have cw: "connectable (configWatcher ?s1) ?w1 = connectable (configWatcher s) w"
    by (simp add: connectable_def end_connection_def)
  show ?thesis
  proof (cases "connectable (configWatcher s) w")
    case True
    then have "connectable (configWatcher ?s1) ?w1" using cw by simp
    from initializeMySQLClient_ok [OF this] res step True fresh
    show ?thesis
      by (auto simp: end_connection_def invalidate_def)
  next
    case False
    then have "\<not> connectable (configWatcher ?s1) ?w1" using cw by simp
    from initializeMySQLClient_fails [OF this]
    obtain e s2 w2 where i: "initializeMySQLClient ?s1 ?w1 = (Some e, s2, w2)"
      and q: "queryCache s2 = queryCache ?s1" and o: "openConns w2 = openConns ?w1"
      and m: "mysqlClient s2 = mysqlClient ?s1
              \<or> mysqlClient s2 = Some \<lparr>connection = None,
                                         config = connectionConfigOf (configWatcher ?s1)\<rparr>"
      by blast
    have ev: "\<exists>rest. events w2 = events w @ End h # rest"
      using i
      by (auto simp: initializeMySQLClient_def Let_def newMySQLClient_def connect_def
            createConnection_def end_connection_def split: option.splits if_splits)
    have sw: "s' = s2" "w' = w2"
      using res step i by simp_all
    have "\<exists>cl'. mysqlClient s2 = Some cl' \<and> connection cl' = None
                \<and> query cl' sql ps w2 = (Inl (Error ''Not connected to database''), w2)"
      using m by (auto simp: query_def)
    then show ?thesis
      using False q o ev sw by (simp add: end_connection_def)
  qed
qed

theorem onChange_disconnects_first_witness:
  "mysqlClient (server0\<lparr>configWatcher := configB\<rparr>)
     = Some \<lparr>connection = Some 0, config = connectionConfigOf configA\<rparr>
   \<and> connection \<lparr>connection = Some 0, config = connectionConfigOf configA\<rparr> = Some 0
   \<and> 0 < nextHandle world0
   \<and> \<not> connectable (configWatcher (server0\<lparr>configWatcher := configB\<rparr>)) world0
   \<and> 0 \<notin> set (openConns (snd (onChange (server0\<lparr>configWatcher := configB\<rparr>) world0)))
   \<and> queryCache (fst (onChange (server0\<lparr>configWatcher := configB\<rparr>) world0))
       = queryCache server0
   \<and> openConns (snd (onChange (server0\<lparr>configWatcher := configB\<rparr>) world0)) = []"
proof -
  let ?s = "server0\<lparr>configWatcher := configB\<rparr>"
  have c: "mysqlClient ?s = Some \<lparr>connection = Some 0, config = connectionConfigOf configA\<rparr>"
    by (simp add: server0_def)
  have h: "connection \<lparr>connection = Some 0, config = connectionConfigOf configA\<rparr> = Some 0"
    by simp
  have f: "0 < nextHandle world0"
    by (simp add: world0_def)
  have n: "\<not> connectable (configWatcher ?s) world0"
    by (simp add: connectable_def world0_def configB_def configA_def connectionConfigOf_def)
  have r: "onChange ?s world0 = (fst (onChange ?s world0), snd (onChange ?s world0))"
    by simp
  have o: "openConns world0 = [0]"
    by (simp add: world0_def)
  show ?thesis
    using c h f n o onChange_disconnects_first [OF c h f r, of "''SELECT 1''" None]
    by (simp add: server0_def)
qed

text \<open>
  Claim C3. For every user and every permission class, \<open>hasPermission\<close> answers exactly
  as the table of section 4.1: Admin is granted all six classes, ReadWrite all but Delete,
  ReadOnly only Select, Show and Describe, and every pair outside the table is denied.
\<close>

theorem hasPermission_table:
  "hasPermission u c = ((role u, c) \<in> set allows_table)"
  by (cases "role u"; cases c) (simp_all add: hasPermission_def allows_table_def)

text \<open>
  Claim C4, as the specification words it: the leading token of the trimmed, case-folded
  text decides, and every token other than the seven keywords gives Select. The text
  \<^verbatim>\<open>DESCX 1\<close> has the leading token \<^verbatim>\<open>descx\<close>, which is none of the keywords, and
  \<open>parseQueryPermission\<close> classifies it as Describe: the code tests a prefix.
\<close>

theorem parseQueryPermission_token_counterexample:
  "parseQueryPermission ''DESCX 1'' = DESCRIBE \<and> classify_token ''DESCX 1'' = SELECT"
  by (simp add: parseQueryPermission_def classify_token_def leadingToken_def keyword_table_def
        toLowerCase_def lowerChar_def trim_def trimStart_def trimEnd_def isWhiteSpace_def
        startsWith_def)

text \<open>
  Claim C4, amended. For every raw query string, \<open>parseQueryPermission\<close> trims the white
  space, case-folds, and tests whether the text starts with a keyword, in the order
  select, insert, update, delete, show, describe, desc (a prefix test). Hence a text whose
  leading token is one of the keywords is classified by that keyword, and every text that
  starts with none of them, such as the empty string or an \<^verbatim>\<open>ALTER TABLE\<close> statement,
  is classified as Select.
\<close>

theorem parseQueryPermission_prefix:
  "parseQueryPermission sql = classify_prefix sql
   \<and> (map_of keyword_table (leadingToken (toLowerCase (trimStart sql))) = Some p
        \<longrightarrow> parseQueryPermission sql = p)
   \<and> ((\<forall>kp\<in>set keyword_table. \<not> startsWith (toLowerCase (trimStart sql)) (fst kp))
        \<longrightarrow> parseQueryPermission sql = SELECT)"
proof (intro conjI impI)
  show "parseQueryPermission sql = classify_prefix sql"
    by (rule parseQueryPermission_classify_prefix)
next
  assume "map_of keyword_table (leadingToken (toLowerCase (trimStart sql))) = Some p"
  then show "parseQueryPermission sql = p"
    by (simp add: parseQueryPermission_classify_prefix token_then_prefix)
next
  assume "\<forall>kp\<in>set keyword_table. \<not> startsWith (toLowerCase (trimStart sql)) (fst kp)"
  then have "find (\<lambda>kp. startsWith (toLowerCase (trimStart sql)) (fst kp)) keyword_table = None"
    unfolding find_None_iff by blast
  then show "parseQueryPermission sql = SELECT"
    by (simp add: parseQueryPermission_classify_prefix classify_prefix_def)
qed

theorem parseQueryPermission_prefix_witness:
  "map_of keyword_table (leadingToken (toLowerCase (trimStart ''  Insert INTO t VALUES (1)'')))
      = Some INSERT
   \<and> parseQueryPermission ''  Insert INTO t VALUES (1)'' = INSERT
   \<and> \<not> (\<exists>kp\<in>set keyword_table.
            startsWith (toLowerCase (trimStart ''ALTER TABLE t ADD c INT'')) (fst kp))
   \<and> parseQueryPermission ''ALTER TABLE t ADD c INT'' = SELECT
   \<and> \<not> (\<exists>kp\<in>set keyword_table. startsWith (toLowerCase (trimStart [])) (fst kp))
   \<and> parseQueryPermission [] = SELECT"
proof -
  have h1: "map_of keyword_table (leadingToken (toLowerCase (trimStart ''  Insert INTO t VALUES (1)'')))
      = Some INSERT"
    by (simp add: leadingToken_def keyword_table_def toLowerCase_def lowerChar_def
          trimStart_def isWhiteSpace_def)
  have h2: "\<forall>kp\<in>set keyword_table.
      \<not> startsWith (toLowerCase (trimStart ''ALTER TABLE t ADD c INT'')) (fst kp)"
    by (simp add: keyword_table_def toLowerCase_def lowerChar_def trimStart_def
          isWhiteSpace_def startsWith_def)
  have h3: "\<forall>kp\<in>set keyword_table. \<not> startsWith (toLowerCase (trimStart [])) (fst kp)"
    by (simp add: keyword_table_def toLowerCase_def trimStart_def startsWith_def)
  show ?thesis
    using h1 h2 h3
      parseQueryPermission_prefix [of "''  Insert INTO t VALUES (1)''" INSERT]
      parseQueryPermission_prefix [of "''ALTER TABLE t ADD c INT''"]
      parseQueryPermission_prefix [of "[]"]
    by blast
qed

text \<open>
  Claim C5 says that the size never exceeds \<open>maxSize\<close> after an insertion. \<open>evictOldest\<close>
  starts its search with \<open>oldestTime = now\<close> and compares with \<open><\<close>, so it evicts nothing
  when no entry is older than the current clock reading. With \<open>maxSize = 1\<close>, two
  insertions of distinct keys in the same millisecond leave two entries.
\<close>

theorem set_entry_exceeds_maxSize:
  "int (length (cache (set_entry 1000
          (set_entry 1000 (newQueryCache 1 300000) ''SELECT 1'' rows1 None None)
          ''SELECT 2'' rows1 None None))) = 2
   \<and> maxSize (set_entry 1000
          (set_entry 1000 (newQueryCache 1 300000) ''SELECT 1'' rows1 None None)
          ''SELECT 2'' rows1 None None) = 1"
proof -
  have first: "set_entry 1000 (newQueryCache 1 300000) ''SELECT 1'' rows1 None None
      = \<lparr>cache = [(''b1698e52a0f16203489454196a0c6307'',
                    \<lparr>data = rows1, timestamp = 1000, ttl = 300000\<rparr>)],
         maxSize = 1, defaultTTL = 300000\<rparr>"
    by (simp add: set_entry_new key_select1)
  show ?thesis
    unfolding first
    by (simp add: set_entry_def evictOldest_def oldestStep_def Let_def key_select2)
qed

text \<open>
  Claim C6, as stated, for \<open>T = 0\<close>: an entry inserted at time 1000 with the ttl 0 should
  be a miss at every time after 1000. It is a hit at 1001, because \<^verbatim>\<open>ttl || defaultTTL\<close>
  stores the default of five minutes.
\<close>

theorem ttl_zero_counterexample:
  "fst (get 1001 (set_entry 1000 (newQueryCache 1000 300000) ''SELECT 1'' rows1 None (Some 0))
          ''SELECT 1'' None) = Some rows1"
  using get_after_set_same [OF refl, of 1001 1000 "newQueryCache 1000 300000" "''SELECT 1''" rows1 None "Some 0"]
  by (simp add: newQueryCache_def)

text \<open>
  Claim C6, amended. An entry inserted at time \<open>t\<close> with a ttl \<open>T\<close> other than 0 is
  returned by \<open>get\<close> at every time \<open>t'\<close> with \<open>t' - t \<le> T\<close>, so at every time before
  \<open>t + T\<close>, and is a miss at every time after \<open>t + T\<close>. An entry inserted with the ttl 0,
  like one inserted without a ttl, gets the default TTL in place of it: it is returned
  at every time \<open>t'\<close> with \<open>t' - t \<le> defaultTTL\<close> and is a miss after that. And whatever
  the cache holds, a value that \<open>get\<close> returns at time \<open>t'\<close> is the data of an entry with
  \<open>t' - timestamp \<le> ttl\<close>: an expired entry is never returned.
\<close>

theorem get_respects_ttl:
  "(T \<noteq> 0 \<longrightarrow>
      fst (get t' (set_entry t c q v ps (Some T)) q ps) = (if t' - t > T then None else Some v))
   \<and> (fst (get t' c q ps) = Some v \<longrightarrow>
        (\<exists>e. map_of (cache c) (generateKey q ps) = Some e \<and> data e = v
              \<and> t' - timestamp e \<le> ttl e))
   \<and> fst (get t' (set_entry t c q v ps (Some 0)) q ps)
       = (if t' - t > defaultTTL c then None else Some v)
   \<and> fst (get t' (set_entry t c q v ps None) q ps)
       = (if t' - t > defaultTTL c then None else Some v)"
proof (intro conjI impI)
  assume "T \<noteq> 0"
  then show "fst (get t' (set_entry t c q v ps (Some T)) q ps) = (if t' - t > T then None else Some v)"
    using get_after_set_same [OF refl, of t' t c q v ps "Some T"] by simp
next
  assume "fst (get t' c q ps) = Some v"
  then show "\<exists>e. map_of (cache c) (generateKey q ps) = Some e \<and> data e = v
              \<and> t' - timestamp e \<le> ttl e"
    using get_hit_fresh [of t' c q ps v] by (simp add: not_less)
next
  show "fst (get t' (set_entry t c q v ps (Some 0)) q ps)
       = (if t' - t > defaultTTL c then None else Some v)"
    using get_after_set_same [OF refl, of t' t c q v ps "Some 0"] by simp
next
  show "fst (get t' (set_entry t c q v ps None) q ps)
       = (if t' - t > defaultTTL c then None else Some v)"
    using get_after_set_same [OF refl, of t' t c q v ps None] by simp
qed

theorem get_respects_ttl_witness:
  "(5000 :: int) \<noteq> 0
   \<and> fst (get 5999 (set_entry 1000 (newQueryCache 1000 300000) ''SELECT 1'' rows1 None (Some 5000))
            ''SELECT 1'' None) = Some rows1
   \<and> fst (get 6001 (set_entry 1000 (newQueryCache 1000 300000) ''SELECT 1'' rows1 None (Some 5000))
            ''SELECT 1'' None) = None
   \<and> (\<exists>e. map_of (cache (set_entry 1000 (newQueryCache 1000 300000) ''SELECT 1'' rows1 None
                            (Some 5000)))
               (generateKey ''SELECT 1'' None) = Some e
            \<and> data e = rows1 \<and> 5999 - timestamp e \<le> ttl e)
   \<and> defaultTTL (newQueryCache 1000 300000 :: json QueryCache) = 300000
   \<and> fst (get 301000 (set_entry 1000 (newQueryCache 1000 300000) ''SELECT 1'' rows1 None (Some 0))
            ''SELECT 1'' None) = Some rows1
   \<and> fst (get 301001 (set_entry 1000 (newQueryCache 1000 300000) ''SELECT 1'' rows1 None (Some 0))
            ''SELECT 1'' None) = None
   \<and> fst (get 301000 (set_entry 1000 (newQueryCache 1000 300000) ''SELECT 1'' rows1 None None)
            ''SELECT 1'' None) = Some rows1
   \<and> fst (get 301001 (set_entry 1000 (newQueryCache 1000 300000) ''SELECT 1'' rows1 None None)
            ''SELECT 1'' None) = None"
proof -
  let ?empty = "newQueryCache 1000 300000 :: json QueryCache"
  let ?one = "set_entry 1000 ?empty ''SELECT 1'' rows1 None (Some 5000)"
  have n: "(5000 :: int) \<noteq> 0" by simp
  have d: "defaultTTL ?empty = 300000"
    by (simp add: newQueryCache_def)
  have a: "fst (get 5999 ?one ''SELECT 1'' None) = Some rows1"
    using n get_respects_ttl [of 5000 5999 1000 ?empty "''SELECT 1''" rows1 None] by simp
  have b: "fst (get 6001 ?one ''SELECT 1'' None) = None"
    using n get_respects_ttl [of 5000 6001 1000 ?empty "''SELECT 1''" rows1 None] by simp
  have e: "\<exists>e. map_of (cache ?one) (generateKey ''SELECT 1'' None) = Some e
            \<and> data e = rows1 \<and> 5999 - timestamp e \<le> ttl e"
    using a get_respects_ttl [of 5000 5999 1000 ?one "''SELECT 1''" rows1 None] by blast
  have z1: "fst (get 301000 (set_entry 1000 ?empty ''SELECT 1'' rows1 None (Some 0))
              ''SELECT 1'' None) = Some rows1"
    using d get_respects_ttl [of 5000 301000 1000 ?empty "''SELECT 1''" rows1 None] by simp
  have z2: "fst (get 301001 (set_entry 1000 ?empty ''SELECT 1'' rows1 None (Some 0))
              ''SELECT 1'' None) = None"
    using d get_respects_ttl [of 5000 301001 1000 ?empty "''SELECT 1''" rows1 None] by simp
  have a1: "fst (get 301000 (set_entry 1000 ?empty ''SELECT 1'' rows1 None None)
              ''SELECT 1'' None) = Some rows1"
    using d get_respects_ttl [of 5000 301000 1000 ?empty "''SELECT 1''" rows1 None] by simp
  have a2: "fst (get 301001 (set_entry 1000 ?empty ''SELECT 1'' rows1 None None)
              ''SELECT 1'' None) = None"
    using d get_respects_ttl [of 5000 301001 1000 ?empty "''SELECT 1''" rows1 None] by simp
  show ?thesis using n d a b e z1 z2 a1 a2 by blast
qed

text \<open>
  Claim C7, as stated: inputs that differ in the query text or in the parameters never
  read each other's value. The key is the digest of the query text followed by the JSON
  text of the parameters, with nothing in between, so the query \<^verbatim>\<open>SELECT ?\<close> with the
  parameters \<^verbatim>\<open>[1]\<close> and the query \<^verbatim>\<open>SELECT ?[1]\<close> without parameters have the same
  key, and the second reads the value stored for the first.
\<close>

theorem key_collision_counterexample:
  "fst (get 1000 (set_entry 1000 (newQueryCache 1000 300000) ''SELECT ?'' rows1 (Some [JNum 1]) None)
          ''SELECT ?[1]'' None) = Some rows1"
  using get_after_set_same [OF key_concat [symmetric], of 1000 1000 "newQueryCache 1000 300000" rows1 None]
  by (simp add: newQueryCache_def)

text \<open>
  Claim C7, amended. \<open>set(q, v, p)\<close> at time \<open>t\<close> followed by \<open>get(q, p)\<close> at a time \<open>t'\<close>
  before the default TTL has run out (\<open>t' - t \<le> defaultTTL\<close>, so also at once when the
  default TTL is not negative) returns \<open>v\<close>. A \<open>get(q', p')\<close> returns that value as well
  when its key is the key of \<open>(q, p)\<close>; when the keys differ it is a miss or returns what
  it returned before the \<open>set\<close>.

  The key is the MD5 digest of \<open>keyData\<close>, the query text followed by the JSON text of the
  parameters. Requests with the same \<open>keyData\<close> read each other's value. The \<open>keyData\<close> of
  two requests differ when the requests differ in the query text alone, and when they
  differ in the parameters alone: in a value, in the order, in the number of the
  parameters, or in that one has a parameter list and the other has none (the numbers
  among the parameters being safe integers, where the model prints what the code
  prints). So a request that differs from \<open>(q, p)\<close> in one of the two reads the value
  set for \<open>(q, p)\<close> only if MD5 gives two different texts the same digest. Requests that
  differ in both at once can have the same \<open>keyData\<close>, as the counterexample shows.
\<close>

theorem cache_round_trip:
  "t' - t \<le> defaultTTL c \<Longrightarrow>
     fst (get t' (set_entry t c q v ps None) q ps) = Some v
   \<and> (generateKey q' ps' = generateKey q ps \<longrightarrow>
        fst (get t' (set_entry t c q v ps None) q' ps') = Some v)
   \<and> (generateKey q' ps' \<noteq> generateKey q ps \<longrightarrow>
        fst (get t' (set_entry t c q v ps None) q' ps') = None
        \<or> fst (get t' (set_entry t c q v ps None) q' ps') = fst (get t' c q' ps'))
   \<and> generateKey q ps = md5_hex (keyData q ps)
   \<and> (keyData q' ps' = keyData q ps \<longrightarrow>
        fst (get t' (set_entry t c q v ps None) q' ps') = Some v)
   \<and> (q' \<noteq> q \<longrightarrow> keyData q' ps \<noteq> keyData q ps)
   \<and> (safeParams ps \<and> safeParams ps' \<and> ps' \<noteq> ps \<longrightarrow> keyData q ps' \<noteq> keyData q ps)
   \<and> ((q' \<noteq> q \<and> ps' = ps \<or> q' = q \<and> ps' \<noteq> ps \<and> safeParams ps \<and> safeParams ps')
        \<and> fst (get t' (set_entry t c q v ps None) q' ps') \<noteq> None
        \<and> fst (get t' (set_entry t c q v ps None) q' ps') \<noteq> fst (get t' c q' ps')
       \<longrightarrow> keyData q' ps' \<noteq> keyData q ps
           \<and> md5_hex (keyData q' ps') = md5_hex (keyData q ps))"
proof -
  assume live: "t' - t \<le> defaultTTL c"
  let ?after = "fst (get t' (set_entry t c q v ps None) q' ps')"
  have same: "fst (get t' (set_entry t c q v ps None) q ps) = Some v"
    using live get_after_set_same [OF refl, of t' t c q v ps None] by simp
  have hit: "generateKey q' ps' = generateKey q ps \<longrightarrow> ?after = Some v"
    using live get_after_set_same [of q' ps' q ps t' t c v None] by simp
  have other: "generateKey q' ps' \<noteq> generateKey q ps \<longrightarrow>
        ?after = None \<or> ?after = fst (get t' c q' ps')"
    using get_after_set_other [of q' ps' q ps t' t c v None] by simp
  have digest: "\<And>x xs. generateKey x xs = md5_hex (keyData x xs)"
    by (simp only: generateKey_def)
  have text_hit: "keyData q' ps' = keyData q ps \<longrightarrow> ?after = Some v"
    using hit by (simp only: digest) simp
  have by_text: "q' \<noteq> q \<longrightarrow> keyData q' ps \<noteq> keyData q ps"
    using keyData_query_inj [of q' ps q] by blast
  have by_params: "safeParams ps \<and> safeParams ps' \<and> ps' \<noteq> ps \<longrightarrow> keyData q ps' \<noteq> keyData q ps"
    using keyData_params_inj [of q ps' ps] by blast
  have collision:
    "(q' \<noteq> q \<and> ps' = ps \<or> q' = q \<and> ps' \<noteq> ps \<and> safeParams ps \<and> safeParams ps')
        \<and> ?after \<noteq> None \<and> ?after \<noteq> fst (get t' c q' ps')
       \<longrightarrow> keyData q' ps' \<noteq> keyData q ps
           \<and> md5_hex (keyData q' ps') = md5_hex (keyData q ps)"
  proof (intro impI conjI)
    assume h: "(q' \<noteq> q \<and> ps' = ps \<or> q' = q \<and> ps' \<noteq> ps \<and> safeParams ps \<and> safeParams ps')
        \<and> ?after \<noteq> None \<and> ?after \<noteq> fst (get t' c q' ps')"
    then show "keyData q' ps' \<noteq> keyData q ps"
      using by_text by_params by blast
    have "generateKey q' ps' = generateKey q ps"
      using h other by auto
    then show "md5_hex (keyData q' ps') = md5_hex (keyData q ps)"
      by (simp only: digest)
  qed
  show ?thesis
    using same hit other digest [of q ps] text_hit by_text by_params collision
    by (intro conjI)
qed

theorem cache_round_trip_witness:
  "1000 - 1000 \<le> defaultTTL (newQueryCache 1000 300000 :: json QueryCache)
   \<and> fst (get 1000 (set_entry 1000 (newQueryCache 1000 300000) ''SELECT ?'' rows1 (Some [JNum 1]) None)
            ''SELECT ?'' (Some [JNum 1])) = Some rows1
   \<and> safeParams (Some [JNum 1]) \<and> safeParams (Some [JNum 2])
   \<and> keyData ''SELECT ?'' (Some [JNum 2]) \<noteq> keyData ''SELECT ?'' (Some [JNum 1])
   \<and> generateKey ''SELECT ?'' (Some [JNum 2]) \<noteq> generateKey ''SELECT ?'' (Some [JNum 1])
   \<and> fst (get 1000 (set_entry 1000 (newQueryCache 1000 300000) ''SELECT ?'' rows1 (Some [JNum 1]) None)
            ''SELECT ?'' (Some [JNum 2])) = None
   \<and> safeParams (Some [JNum 1, JNum 2]) \<and> safeParams (Some [JNum 2, JNum 1])
   \<and> keyData ''SELECT ?, ?'' (Some [JNum 2, JNum 1]) \<noteq> keyData ''SELECT ?, ?'' (Some [JNum 1, JNum 2])
   \<and> keyData ''SELECT ?'' None \<noteq> keyData ''SELECT ?'' (Some [])
   \<and> keyData ''SELECT ?[1]'' None = keyData ''SELECT ?'' (Some [JNum 1])
   \<and> fst (get 1000 (set_entry 1000 (newQueryCache 1000 300000) ''SELECT ?'' rows1 (Some [JNum 1]) None)
            ''SELECT ?[1]'' None) = Some rows1
   \<and> keyData ''TEXTCOLLBYfGiJUETHQ4hEcKSMd5zYpgqf1YRDhkmxHkhPWptrkoyz28wnI9V0aHeAuaKnak'' None
       \<noteq> keyData ''TEXTCOLLBYfGiJUETHQ4hAcKSMd5zYpgqf1YRDhkmxHkhPWptrkoyz28wnI9V0aHeAuaKnak'' None
   \<and> fst (get 1000 (newQueryCache 1000 300000 :: json QueryCache)
            ''TEXTCOLLBYfGiJUETHQ4hEcKSMd5zYpgqf1YRDhkmxHkhPWptrkoyz28wnI9V0aHeAuaKnak'' None) = None
   \<and> fst (get 1000 (set_entry 1000 (newQueryCache 1000 300000)
                      ''TEXTCOLLBYfGiJUETHQ4hAcKSMd5zYpgqf1YRDhkmxHkhPWptrkoyz28wnI9V0aHeAuaKnak''
                      rows1 None None)
            ''TEXTCOLLBYfGiJUETHQ4hEcKSMd5zYpgqf1YRDhkmxHkhPWptrkoyz28wnI9V0aHeAuaKnak'' None)
       = Some rows1
   \<and> md5_hex (keyData ''TEXTCOLLBYfGiJUETHQ4hEcKSMd5zYpgqf1YRDhkmxHkhPWptrkoyz28wnI9V0aHeAuaKnak'' None)
       = md5_hex (keyData ''TEXTCOLLBYfGiJUETHQ4hAcKSMd5zYpgqf1YRDhkmxHkhPWptrkoyz28wnI9V0aHeAuaKnak'' None)"
proof -
  let ?empty = "newQueryCache 1000 300000 :: json QueryCache"
  let ?ta = "''TEXTCOLLBYfGiJUETHQ4hAcKSMd5zYpgqf1YRDhkmxHkhPWptrkoyz28wnI9V0aHeAuaKnak''"
  let ?tb = "''TEXTCOLLBYfGiJUETHQ4hEcKSMd5zYpgqf1YRDhkmxHkhPWptrkoyz28wnI9V0aHeAuaKnak''"
  have d: "1000 - 1000 \<le> defaultTTL ?empty"
    by (simp add: newQueryCache_def)
  have s: "safeParams (Some [JNum 1])" "safeParams (Some [JNum 2])"
    "safeParams (Some [JNum 1, JNum 2])" "safeParams (Some [JNum 2, JNum 1])"
    by (simp_all add: safeParams_def safeInteger_def)
  have k: "generateKey ''SELECT ?'' (Some [JNum 2]) \<noteq> generateKey ''SELECT ?'' (Some [JNum 1])"
    by (simp add: key_param_one key_param_two)
  have g0: "\<And>x xs. fst (get 1000 ?empty x xs) = None"
    by (simp add: get_def newQueryCache_def)
  note one = cache_round_trip [OF d, of "''SELECT ?''" rows1 "Some [JNum 1]" "''SELECT ?''" "Some [JNum 2]"]
  have r1: "fst (get 1000 (set_entry 1000 ?empty ''SELECT ?'' rows1 (Some [JNum 1]) None)
              ''SELECT ?'' (Some [JNum 1])) = Some rows1"
    using one by blast
  have r2: "keyData ''SELECT ?'' (Some [JNum 2]) \<noteq> keyData ''SELECT ?'' (Some [JNum 1])"
    using one s by simp
  have r3: "fst (get 1000 (set_entry 1000 ?empty ''SELECT ?'' rows1 (Some [JNum 1]) None)
              ''SELECT ?'' (Some [JNum 2])) = None"
    using one k g0 [of "''SELECT ?''" "Some [JNum 2]"] by auto
  have r4: "keyData ''SELECT ?, ?'' (Some [JNum 2, JNum 1]) \<noteq> keyData ''SELECT ?, ?'' (Some [JNum 1, JNum 2])"
    using s cache_round_trip [OF d, of "''SELECT ?, ?''" rows1 "Some [JNum 1, JNum 2]" "''SELECT ?, ?''" "Some [JNum 2, JNum 1]"]
    by simp
  have r5: "keyData ''SELECT ?'' None \<noteq> keyData ''SELECT ?'' (Some [])"
    using cache_round_trip [OF d, of "''SELECT ?''" rows1 "Some []" "''SELECT ?''" None]
    by (simp add: safeParams_def)
  have e: "keyData ''SELECT ?[1]'' None = keyData ''SELECT ?'' (Some [JNum 1])"
    by (simp add: keyData_def showInt_def decimal.simps)
  have r6: "fst (get 1000 (set_entry 1000 ?empty ''SELECT ?'' rows1 (Some [JNum 1]) None)
              ''SELECT ?[1]'' None) = Some rows1"
    using e cache_round_trip [OF d, of "''SELECT ?''" rows1 "Some [JNum 1]" "''SELECT ?[1]''" None]
    by blast
  note two = cache_round_trip [OF d, of ?ta rows1 None ?tb None]
  have ne: "?tb \<noteq> ?ta" by simp
  have r7: "keyData ?tb None \<noteq> keyData ?ta None"
    using ne two by blast
  have kk: "generateKey ?tb None = generateKey ?ta None"
    by (simp only: key_text_a key_text_b)
  have r8: "fst (get 1000 (set_entry 1000 ?empty ?ta rows1 None None) ?tb None) = Some rows1"
    using kk two by blast
  have r9: "md5_hex (keyData ?tb None) = md5_hex (keyData ?ta None)"
    using ne r8 g0 [of ?tb None] two by simp
  show ?thesis
    using d r1 s r2 k r3 r4 r5 e r6 r7 g0 [of ?tb None] r8 r9 by (intro conjI)
qed

text \<open>
  Claim C8, as stated: the token of a successful \<open>authenticate\<close> differs from every live
  token. With the session \<^verbatim>\<open>abc\<close> of \<^verbatim>\<open>admin\<close> live, a login of \<^verbatim>\<open>readonly\<close> whose
  random draw is \<^verbatim>\<open>abc\<close> again returns \<^verbatim>\<open>abc\<close> and rebinds that session.
\<close>

theorem authenticate_collision_counterexample:
  "sessions \<lparr>users = initializeDefaultUsers Map.empty, sessions = [''abc'' \<mapsto> ''admin'']\<rparr> ''abc''
     = Some ''admin''
   \<and> authenticate \<lparr>users = initializeDefaultUsers Map.empty, sessions = [''abc'' \<mapsto> ''admin'']\<rparr>
        ''readonly'' ''ro123'' ''abc''
     = (Some ''abc'',
        \<lparr>users = initializeDefaultUsers Map.empty, sessions = [''abc'' \<mapsto> ''readonly'']\<rparr>)"
  by (simp add: authenticate_def initializeDefaultUsers_def envOr_def)

text \<open>
  Claim C8, amended. Whatever the session store holds, \<open>authenticate\<close> with the name of
  a registered user and that user's password succeeds: it returns the random draw as
  the token and binds the draw to the user name in the session map, leaving every other
  session and the users as they were. It does so also when the draw is the token of a
  live session, which is then rebound to the new user name: nothing compares the draw
  with the live tokens. With any other name or password \<open>authenticate\<close> returns
  \<^verbatim>\<open>null\<close> and changes nothing. So a successful call returns the draw, and its token
  is distinct from every live token exactly when the draw is.
\<close>

theorem authenticate_token_is_draw:
  "(authenticate am uname pw sessionId = (Some token, am')
      \<longrightarrow> token = sessionId
          \<and> sessions am' = (sessions am)(sessionId \<mapsto> uname)
          \<and> users am' = users am
          \<and> (sessions am sessionId = None \<longrightarrow> token \<notin> dom (sessions am)))
   \<and> (users am uname = Some u \<and> password u = pw
      \<longrightarrow> authenticate am uname pw sessionId
            = (Some sessionId, am\<lparr>sessions := (sessions am)(sessionId \<mapsto> uname)\<rparr>))
   \<and> (users am uname = Some u \<and> password u = pw \<and> sessions am sessionId = Some other
      \<longrightarrow> fst (authenticate am uname pw sessionId) = Some sessionId
          \<and> sessionId \<in> dom (sessions am)
          \<and> sessions (snd (authenticate am uname pw sessionId)) sessionId = Some uname
          \<and> (\<forall>k. k \<noteq> sessionId
                \<longrightarrow> sessions (snd (authenticate am uname pw sessionId)) k = sessions am k))
   \<and> (users am uname = None \<or> (\<exists>u'. users am uname = Some u' \<and> password u' \<noteq> pw)
      \<longrightarrow> authenticate am uname pw sessionId = (None, am))
   \<and> (fst (authenticate am uname pw sessionId) \<noteq> None
      \<longrightarrow> (fst (authenticate am uname pw sessionId) \<notin> Some ` dom (sessions am))
            = (sessionId \<notin> dom (sessions am)))"
proof (intro conjI)
  show "authenticate am uname pw sessionId = (Some token, am')
      \<longrightarrow> token = sessionId
          \<and> sessions am' = (sessions am)(sessionId \<mapsto> uname)
          \<and> users am' = users am
          \<and> (sessions am sessionId = None \<longrightarrow> token \<notin> dom (sessions am))"
    by (auto simp: authenticate_def split: option.splits if_splits)
next
  show "users am uname = Some u \<and> password u = pw
      \<longrightarrow> authenticate am uname pw sessionId
            = (Some sessionId, am\<lparr>sessions := (sessions am)(sessionId \<mapsto> uname)\<rparr>)"
    by (simp add: authenticate_def)
next
  show "users am uname = Some u \<and> password u = pw \<and> sessions am sessionId = Some other
      \<longrightarrow> fst (authenticate am uname pw sessionId) = Some sessionId
          \<and> sessionId \<in> dom (sessions am)
          \<and> sessions (snd (authenticate am uname pw sessionId)) sessionId = Some uname
          \<and> (\<forall>k. k \<noteq> sessionId
                \<longrightarrow> sessions (snd (authenticate am uname pw sessionId)) k = sessions am k)"
  proof
    assume h: "users am uname = Some u \<and> password u = pw \<and> sessions am sessionId = Some other"
    then have a: "authenticate am uname pw sessionId
            = (Some sessionId, am\<lparr>sessions := (sessions am)(sessionId \<mapsto> uname)\<rparr>)"
      by (simp add: authenticate_def)
    show "fst (authenticate am uname pw sessionId) = Some sessionId
          \<and> sessionId \<in> dom (sessions am)
          \<and> sessions (snd (authenticate am uname pw sessionId)) sessionId = Some uname
          \<and> (\<forall>k. k \<noteq> sessionId
                \<longrightarrow> sessions (snd (authenticate am uname pw sessionId)) k = sessions am k)"
      unfolding a using h by auto
  qed
next
  show "users am uname = None \<or> (\<exists>u'. users am uname = Some u' \<and> password u' \<noteq> pw)
      \<longrightarrow> authenticate am uname pw sessionId = (None, am)"
    by (auto simp: authenticate_def)
next
  show "fst (authenticate am uname pw sessionId) \<noteq> None
      \<longrightarrow> (fst (authenticate am uname pw sessionId) \<notin> Some ` dom (sessions am))
            = (sessionId \<notin> dom (sessions am))"
  proof
    assume "fst (authenticate am uname pw sessionId) \<noteq> None"
    then have "fst (authenticate am uname pw sessionId) = Some sessionId"
      by (auto simp: authenticate_def split: option.splits if_splits)
    then show "(fst (authenticate am uname pw sessionId) \<notin> Some ` dom (sessions am))
            = (sessionId \<notin> dom (sessions am))"
      by auto
  qed
qed

theorem authenticate_token_is_draw_witness:
  "users (authManager server0) ''readonly''
     = Some \<lparr>username = ''readonly'', password = ''ro123'', role = READ_ONLY\<rparr>
   \<and> sessions (authManager server0) ''s1'' = Some ''admin''
   \<and> ''s1'' \<in> dom (sessions (authManager server0))
   \<and> authenticate (authManager server0) ''readonly'' ''ro123'' ''s1''
       = (Some ''s1'', (authManager server0)\<lparr>sessions := (sessions (authManager server0))(''s1'' \<mapsto> ''readonly'')\<rparr>)
   \<and> sessions (snd (authenticate (authManager server0) ''readonly'' ''ro123'' ''s1'')) ''s1''
       = Some ''readonly''
   \<and> sessions (authManager server0) ''k3j9x'' = None
   \<and> authenticate (authManager server0) ''readonly'' ''ro123'' ''k3j9x''
       = (Some ''k3j9x'', (authManager server0)\<lparr>sessions := (sessions (authManager server0))(''k3j9x'' \<mapsto> ''readonly'')\<rparr>)
   \<and> ''k3j9x'' \<notin> dom (sessions (authManager server0))
   \<and> sessions (snd (authenticate (authManager server0) ''readonly'' ''ro123'' ''k3j9x'')) ''s1''
       = Some ''admin''
   \<and> authenticate (authManager server0) ''readonly'' ''admin123'' ''s1'' = (None, authManager server0)
   \<and> users (authManager server0) ''nobody'' = None
   \<and> authenticate (authManager server0) ''nobody'' ''ro123'' ''s1'' = (None, authManager server0)"
proof -
  let ?am = "authManager server0"
  let ?ro = "\<lparr>username = ''readonly'', password = ''ro123'', role = READ_ONLY\<rparr>"
  have u: "users ?am ''readonly'' = Some ?ro"
    by (simp add: server0_def newAuthManager_def initializeDefaultUsers_def envOr_def)
  have p: "password ?ro = ''ro123''" "password ?ro \<noteq> ''admin123''"
    by simp_all
  have n: "users ?am ''nobody'' = None"
    by (simp add: server0_def newAuthManager_def initializeDefaultUsers_def envOr_def)
  have live: "sessions ?am ''s1'' = Some ''admin''"
    by (simp add: server0_def)
  have fresh: "sessions ?am ''k3j9x'' = None"
    by (simp add: server0_def)
  note same = authenticate_token_is_draw [of ?am "''readonly''" "''ro123''" "''s1''" "''s1''"
      "?am\<lparr>sessions := (sessions ?am)(''s1'' \<mapsto> ''readonly'')\<rparr>" ?ro "''admin''"]
  note new = authenticate_token_is_draw [of ?am "''readonly''" "''ro123''" "''k3j9x''" "''k3j9x''"
      "?am\<lparr>sessions := (sessions ?am)(''k3j9x'' \<mapsto> ''readonly'')\<rparr>" ?ro "''admin''"]
  note wrong = authenticate_token_is_draw [of ?am "''readonly''" "''admin123''" "''s1''" "''s1''"
      ?am ?ro "''admin''"]
  note unknown = authenticate_token_is_draw [of ?am "''nobody''" "''ro123''" "''s1''" "''s1''"
      ?am ?ro "''admin''"]
  have a1: "authenticate ?am ''readonly'' ''ro123'' ''s1''
       = (Some ''s1'', ?am\<lparr>sessions := (sessions ?am)(''s1'' \<mapsto> ''readonly'')\<rparr>)"
    using same u p(1) by blast
  have a2: "sessions (snd (authenticate ?am ''readonly'' ''ro123'' ''s1'')) ''s1'' = Some ''readonly''"
    using same u p(1) live by blast
  have a3: "authenticate ?am ''readonly'' ''ro123'' ''k3j9x''
       = (Some ''k3j9x'', ?am\<lparr>sessions := (sessions ?am)(''k3j9x'' \<mapsto> ''readonly'')\<rparr>)"
    using new u p(1) by blast
  have a4: "''k3j9x'' \<notin> dom (sessions ?am)"
    using new a3 fresh by blast
  have a5: "sessions (snd (authenticate ?am ''readonly'' ''ro123'' ''k3j9x'')) ''s1'' = Some ''admin''"
    unfolding a3 using live by simp
  have a6: "authenticate ?am ''readonly'' ''admin123'' ''s1'' = (None, ?am)"
    using wrong u p(2) by blast
  have a7: "authenticate ?am ''nobody'' ''ro123'' ''s1'' = (None, ?am)"
    using unknown n by blast
  have l: "''s1'' \<in> dom (sessions ?am)"
    using live by blast
  show ?thesis
    using u live l a1 a2 fresh a3 a4 a5 a6 a7 n by (intro conjI)
qed

text \<open>
  Claim C9. \<open>authenticate\<close> is non-enumerating: a login under a user name that is not
  registered and a login under a registered name with a wrong password both return
  \<^verbatim>\<open>null\<close> and leave the session store as it was, and the \<^verbatim>\<open>mysql_auth\<close> handler
  answers both with the same error, in the same server state, whatever the passwords and
  the random draws are. The caller cannot tell the two failures apart.
\<close>

theorem authenticate_non_enumerating:
  assumes unknown: "users (authManager s) uname1 = None"
    and known: "users (authManager s) uname2 = Some u2"
    and wrong: "password u2 \<noteq> pw2"
  shows "authenticate (authManager s) uname1 pw1 (random36 out1) = (None, authManager s)
       \<and> authenticate (authManager s) uname2 pw2 (random36 out2) = (None, authManager s)
       \<and> callTool (Mysql_auth uname1 pw1) out1 s w = callTool (Mysql_auth uname2 pw2) out2 s w
       \<and> (case mysqlClient s of
             None \<Rightarrow> True
           | Some cl \<Rightarrow>
               callTool (Mysql_auth uname2 pw2) out2 s w
                 = (failed (McpError InvalidRequest ''Invalid username or password''), s, w))"
proof -
  have a1: "authenticate (authManager s) uname1 pw1 (random36 out1) = (None, authManager s)"
    using unknown by (simp add: authenticate_def)
  have a2: "authenticate (authManager s) uname2 pw2 (random36 out2) = (None, authManager s)"
    using known wrong by (simp add: authenticate_def)
  have c: "callTool (Mysql_auth uname1 pw1) out1 s w = callTool (Mysql_auth uname2 pw2) out2 s w"
    by (cases "mysqlClient s") (simp_all add: callTool_def a1 a2 truthyStr_def)
  have d: "case mysqlClient s of
             None \<Rightarrow> True
           | Some cl \<Rightarrow>
               callTool (Mysql_auth uname2 pw2) out2 s w
                 = (failed (McpError InvalidRequest ''Invalid username or password''), s, w)"
    by (cases "mysqlClient s") (simp_all add: callTool_def a2 truthyStr_def)
  show ?thesis using a1 a2 c d by blast
qed

theorem authenticate_non_enumerating_witness:
  "users (authManager server0) ''nobody'' = None
   \<and> users (authManager server0) ''admin''
       = Some \<lparr>username = ''admin'', password = ''admin123'', role = ADMIN\<rparr>
   \<and> password \<lparr>username = ''admin'', password = ''admin123'', role = ADMIN\<rparr> \<noteq> ''guess''
   \<and> callTool (Mysql_auth ''nobody'' ''x'') outside0 server0 world0
       = callTool (Mysql_auth ''admin'' ''guess'') outside0 server0 world0
   \<and> callTool (Mysql_auth ''admin'' ''guess'') outside0 server0 world0
       = (failed (McpError InvalidRequest ''Invalid username or password''), server0, world0)"
proof -
  have h1: "users (authManager server0) ''nobody'' = None"
    by (simp add: server0_def newAuthManager_def initializeDefaultUsers_def envOr_def)
  have h2: "users (authManager server0) ''admin''
       = Some \<lparr>username = ''admin'', password = ''admin123'', role = ADMIN\<rparr>"
    by (simp add: server0_def newAuthManager_def initializeDefaultUsers_def envOr_def)
  have h3: "password \<lparr>username = ''admin'', password = ''admin123'', role = ADMIN\<rparr> \<noteq> ''guess''"
    by simp
  have cl: "mysqlClient server0 = Some \<lparr>connection = Some 0, config = connectionConfigOf configA\<rparr>"
    by (simp add: server0_def)
  show ?thesis
    using h1 h2 h3
      authenticate_non_enumerating [OF h1 h2 h3, of "''x''" outside0 outside0 world0]
    by (simp add: cl)
qed

text \<open>
  Claim C10. A raw \<^verbatim>\<open>mysql_query\<close> never invalidates. A statement that is not cacheable
  leaves the cache as it was, whatever the outcome, and every statement classified as
  Insert, Update or Delete is not cacheable. A cacheable statement touches only the entry
  of its own key, except that storing its result in a full cache evicts one entry. Every
  other tool leaves the cache as it was, except a successful \<^verbatim>\<open>mysql_insert\<close>,
  \<^verbatim>\<open>mysql_update\<close> or \<^verbatim>\<open>mysql_delete\<close>, which applies \<open>invalidateTable\<close> to its table.
\<close>

theorem raw_query_never_invalidates:
  "(\<not> shouldCache q \<longrightarrow>
      queryCache (fst (snd (callTool (Mysql_query sid q ps) out s w))) = queryCache s)
   \<and> (parseQueryPermission q \<in> {INSERT, UPDATE, DELETE} \<longrightarrow> \<not> shouldCache q)
   \<and> (k \<noteq> generateKey q ps \<longrightarrow>
        map_of (cache (queryCache (fst (snd (callTool (Mysql_query sid q ps) out s w))))) k
          = map_of (cache (queryCache s)) k
        \<or> (map_of (cache (queryCache (fst (snd (callTool (Mysql_query sid q ps) out s w))))) k
              = None
            \<and> maxSize (queryCache s) \<le> int (length (cache (queryCache s)))))
   \<and> (\<not> isRawQuery req \<longrightarrow>
        queryCache (fst (snd (callTool req out s w)))
          = (case (invalidatedTable req, fst (callTool req out s w)) of
               (Some table, Inr r) \<Rightarrow> invalidateTable table (queryCache s)
             | _ \<Rightarrow> queryCache s))"
proof (intro conjI impI)
  assume "\<not> shouldCache q"
  then show "queryCache (fst (snd (callTool (Mysql_query sid q ps) out s w))) = queryCache s"
    using mysql_query_uncached [of q _ sid ps out s w]
    by (cases "mysqlClient s") (simp_all add: callTool_def)
next
  assume "parseQueryPermission q \<in> {INSERT, UPDATE, DELETE}"
  then show "\<not> shouldCache q"
    by (rule mutating_not_cached)
next
  assume "k \<noteq> generateKey q ps"
  then show "map_of (cache (queryCache (fst (snd (callTool (Mysql_query sid q ps) out s w))))) k
          = map_of (cache (queryCache s)) k
        \<or> (map_of (cache (queryCache (fst (snd (callTool (Mysql_query sid q ps) out s w))))) k
              = None
            \<and> maxSize (queryCache s) \<le> int (length (cache (queryCache s))))"
    using mysql_query_other_key [of k q ps _ sid out s w]
    by (cases "mysqlClient s") (simp_all add: callTool_def)
next
  assume "\<not> isRawQuery req"
  then show "queryCache (fst (snd (callTool req out s w)))
          = (case (invalidatedTable req, fst (callTool req out s w)) of
               (Some table, Inr r) \<Rightarrow> invalidateTable table (queryCache s)
             | _ \<Rightarrow> queryCache s)"
    by (rule callTool_other_tools)
qed

theorem raw_query_never_invalidates_witness:
  "\<not> shouldCache ''DELETE FROM t WHERE id = 1''
   \<and> parseQueryPermission ''DELETE FROM t WHERE id = 1'' \<in> {INSERT, UPDATE, DELETE}
   \<and> fst (callTool (Mysql_query ''s1'' ''DELETE FROM t WHERE id = 1'' None) outside0 server0 world0)
       = Inr (QueryRows rows1)
   \<and> queryCache (fst (snd (callTool (Mysql_query ''s1'' ''DELETE FROM t WHERE id = 1'' None)
                               outside0 server0 world0)))
       = queryCache server0
   \<and> fst (get 2010 (queryCache (fst (snd (callTool
                 (Mysql_query ''s1'' ''DELETE FROM t WHERE id = 1'' None) outside0 server0 world0))))
            ''SELECT * FROM t'' None)
       = Some rows1
   \<and> ''-'' \<noteq> generateKey ''DELETE FROM t WHERE id = 1'' None
   \<and> \<not> isRawQuery (Mysql_insert ''s1'' ''t'' [(''id'', JNum 2)] None)
   \<and> fst (callTool (Mysql_insert ''s1'' ''t'' [(''id'', JNum 2)] None) outside0 server0 world0)
       = Inr (InsertedInto ''t'' None rows1)
   \<and> queryCache (fst (snd (callTool (Mysql_insert ''s1'' ''t'' [(''id'', JNum 2)] None)
                               outside0 server0 world0)))
       = invalidateTable ''t'' (queryCache server0)"
proof -
  let ?q = "''DELETE FROM t WHERE id = 1''"
  let ?ins = "Mysql_insert ''s1'' ''t'' [(''id'', JNum 2)] None"
  have nc: "\<not> shouldCache ?q"
    by (simp add: shouldCache_def toLowerCase_def lowerChar_def trim_def trimStart_def
          trimEnd_def isWhiteSpace_def startsWith_def)
  have del: "parseQueryPermission ?q \<in> {INSERT, UPDATE, DELETE}"
    by (simp add: parseQueryPermission_def toLowerCase_def lowerChar_def trim_def trimStart_def
          trimEnd_def isWhiteSpace_def startsWith_def)
  have usr: "getUserFromSession (authManager server0) ''s1''
      = Some \<lparr>username = ''admin'', password = ''admin123'', role = ADMIN\<rparr>"
    by (simp add: getUserFromSession_def server0_def newAuthManager_def
          initializeDefaultUsers_def envOr_def)
  have au: "\<And>operation sql. authenticateAndAuthorize (authManager server0) ''s1'' operation sql = None"
    by (simp add: authenticateAndAuthorize_def usr hasPermission_def Let_def)
  have cl: "mysqlClient server0 = Some \<lparr>connection = Some 0, config = connectionConfigOf configA\<rparr>"
    by (simp add: server0_def)
  have ok: "fst (callTool (Mysql_query ''s1'' ?q None) outside0 server0 world0)
      = Inr (QueryRows rows1)"
    by (simp add: callTool_def cl mysql_query_def au nc query_def execute_def world0_def
          rows1_def isArray_def)
  have key: "''-'' \<noteq> generateKey ?q None"
  proof
    assume "''-'' = generateKey ?q None"
    then have "set ''-'' \<subseteq> set ''0123456789abcdef''"
      using md5_hex_chars [of ?q] by (simp add: generateKey_def keyData_def)
    then show False by simp
  qed
  have nr: "\<not> isRawQuery ?ins"
    by (simp add: isRawQuery_def)
  have ins: "fst (callTool ?ins outside0 server0 world0) = Inr (InsertedInto ''t'' None rows1)"
    by (simp add: callTool_def cl au finishInvalidating_def insertData_def executeDirect_def
          execute_def world0_def)
  have same: "queryCache (fst (snd (callTool (Mysql_query ''s1'' ?q None) outside0 server0 world0)))
      = queryCache server0"
    using nc raw_query_never_invalidates [of ?q "''s1''" None outside0 server0 world0] by blast
  have hit: "fst (get 2010 (queryCache server0) ''SELECT * FROM t'' None) = Some rows1"
    using get_after_set_same [OF refl, of 2010 1000 "newQueryCache 1000 300000" "''SELECT * FROM t''"
        rows1 None None]
    by (simp add: server0_def newQueryCache_def)
  have inv: "queryCache (fst (snd (callTool ?ins outside0 server0 world0)))
      = invalidateTable ''t'' (queryCache server0)"
    using nr ins
      raw_query_never_invalidates [of ?q "''s1''" None outside0 server0 world0 "''-''" ?ins]
    by (simp add: invalidatedTable_def)
  show ?thesis
    using nc del ok same hit key nr ins inv by simp
qed

end
